theory Spec2Isabelle
  imports Main "HOL-Library.Word"
begin

section \<open>Bytes, C strings and pointers\<close>

text \<open>
  The interposer is written in C. A value of type \<open>char *\<close> is modelled by the list of
  bytes from the pointer on. A string ends at its first NUL byte; the end of the list stands
  for the terminator of a string whose terminator is left implicit, so every string
  function stops at a NUL byte and at the end of the list alike. A pointer that may be NULL
  is an \<open>option\<close>, with \<open>None\<close> for NULL.
\<close>

definition NUL :: char where
  "NUL = CHR 0x00"

definition hiddenNull :: "'a option" where
  \<comment> \<open>\<open>libbtrace_c_NULL_constant\<close>: a global holding NULL, compared against instead of NULL.\<close>
  "hiddenNull = None"

text \<open>The bytes of the string at a pointer, without the terminator.\<close>

fun cstr :: "string \<Rightarrow> string" where
  "cstr [] = []"
| "cstr (ch # s) = (if ch = NUL then [] else ch # cstr s)"

section \<open>Safe primitives\<close>

text \<open>\<open>safeStrChr\<close> returns the pointer to the first occurrence, or NULL.\<close>

fun safeStrChr :: "string \<Rightarrow> char \<Rightarrow> string option" where
  "safeStrChr [] c = (if NUL = c then Some [] else None)"
| "safeStrChr (ch # s) c =
     (if ch = c then Some (ch # s)
      else if ch = NUL then None
      else safeStrChr s c)"

text \<open>\<open>safeStrRChr\<close> keeps the last occurrence seen in \<open>ret\<close>.\<close>

fun safeStrRChr_loop :: "string option \<Rightarrow> string \<Rightarrow> char \<Rightarrow> string option" where
  "safeStrRChr_loop ret [] c = (if NUL = c then Some [] else ret)"
| "safeStrRChr_loop ret (ch # s) c =
     (let ret' = (if ch = c then Some (ch # s) else ret)
      in if ch = NUL then ret' else safeStrRChr_loop ret' s c)"

definition safeStrRChr :: "string \<Rightarrow> char \<Rightarrow> string option" where
  "safeStrRChr s c = safeStrRChr_loop None s c"

fun safeStrLen :: "string \<Rightarrow> nat" where
  "safeStrLen [] = 0"
| "safeStrLen (ch # str) = (if ch = NUL then 0 else Suc (safeStrLen str))"

text \<open>
  \<open>safeStrNCmp\<close> compares at most \<open>n\<close> bytes as unsigned chars and returns the difference
  of the first pair that differs or ends a string.
\<close>

fun safeStrNCmp :: "string \<Rightarrow> string \<Rightarrow> nat \<Rightarrow> int" where
  "safeStrNCmp s1 s2 0 = 0"
| "safeStrNCmp s1 s2 (Suc n) =
     (let ch1 = (case s1 of [] \<Rightarrow> NUL | a # _ \<Rightarrow> a);
          ch2 = (case s2 of [] \<Rightarrow> NUL | b # _ \<Rightarrow> b)
      in if ch1 \<noteq> ch2 \<or> ch1 = NUL \<or> ch2 = NUL
         then int (of_char ch1) - int (of_char ch2)
         else safeStrNCmp (tl s1) (tl s2) n)"

text \<open>
  \<open>safeStrCpy\<close> copies up to and including the terminator; the model returns the bytes
  it stores at \<open>dest\<close>.
\<close>

fun safeStrCpy :: "string \<Rightarrow> string" where
  "safeStrCpy [] = [NUL]"
| "safeStrCpy (ch # src) = (if ch = NUL then [NUL] else ch # safeStrCpy src)"

subsection \<open>Decimal conversion\<close>

text \<open>
  \<open>uint64ToString\<close> fills \<open>tempBuf\<close> from its last byte backwards: \<open>ptr\<close> is the list of
  bytes from the pointer to the end of the buffer, and \<open>*(--ptr) = '0' + val % 10\<close> puts one
  more digit in front. The loop is a do-while: its body runs before the test.
\<close>

function uint64ToString_loop :: "64 word \<Rightarrow> string \<Rightarrow> string" where
  "uint64ToString_loop val ptr =
     (if val div 10 \<noteq> 0
      then uint64ToString_loop (val div 10) (char_of (of_char (CHR ''0'') + unat (val mod 10)) # ptr)
      else char_of (of_char (CHR ''0'') + unat (val mod 10)) # ptr)"
  by pat_completeness auto
termination
proof (relation "measure (\<lambda>(val, ptr). unat val)")
  show "wf (measure (\<lambda>(val, ptr). unat val))"
    by simp
next
  fix val :: "64 word" and ptr :: string
  assume nz: "val div 10 \<noteq> 0"
  have "unat val \<noteq> 0"
    using nz by (auto simp: unat_eq_0)
  then have "unat val div 10 < unat val"
    by simp
  then show "((val div 10, char_of (of_char (CHR ''0'') + unat (val mod 10)) # ptr), (val, ptr))
               \<in> measure (\<lambda>(val, ptr). unat val)"
    by (simp add: unat_div)
qed

definition uint64ToString :: "64 word \<Rightarrow> string" where
  "uint64ToString val = safeStrCpy (uint64ToString_loop val [NUL])"

definition safeIsDigit :: "char \<Rightarrow> bool" where
  "safeIsDigit ch = ((of_char (CHR ''0'') :: nat) \<le> of_char ch \<and> (of_char ch :: nat) \<le> of_char (CHR ''9''))"

text \<open>
  \<open>stringToUint64\<close>: \<open>temp\<close> is a \<open>uint64_t\<close>, so \<open>temp * 10 + (*input - '0')\<close> wraps
  modulo \<open>2 ^ 64\<close>.
\<close>

fun stringToUint64_loop :: "64 word \<Rightarrow> string \<Rightarrow> 64 word" where
  "stringToUint64_loop temp [] = temp"
| "stringToUint64_loop temp (ch # input) =
     (if safeIsDigit ch
      then stringToUint64_loop (temp * 10 + of_nat (of_char ch - of_char (CHR ''0''))) input
      else temp)"

definition stringToUint64 :: "string \<Rightarrow> 64 word" where
  "stringToUint64 input = stringToUint64_loop 0 input"

text \<open>The value of a run of decimal digits as a natural number, for stating results.\<close>

definition digit_value :: "char \<Rightarrow> nat" where
  "digit_value ch = of_char ch - of_char (CHR ''0'')"

fun decimal_value_from :: "nat \<Rightarrow> string \<Rightarrow> nat" where
  "decimal_value_from acc [] = acc"
| "decimal_value_from acc (ch # s) = decimal_value_from (acc * 10 + digit_value ch) s"

definition decimal_value :: "string \<Rightarrow> nat" where
  "decimal_value s = decimal_value_from 0 s"

section \<open>Fatal outcomes and diagnostics\<close>

text \<open>
  The interposer never returns an error: it either carries on or stops the process. A
  computation that may stop the process returns \<open>fatal + 'a\<close>.
\<close>

datatype fatal =
    AssertFail string \<comment> \<open>\<open>safeAssert\<close> failed: the text of the assertion\<close>
  | Abort string \<comment> \<open>\<open>writeError\<close> then \<open>abort()\<close>: the diagnostic written to stderr\<close>
  | UndefinedBehaviour \<comment> \<open>a read or write outside the object the pointer belongs to\<close>

definition bindE :: "'e + 'a \<Rightarrow> ('a \<Rightarrow> 'e + 'b) \<Rightarrow> 'e + 'b" where
  "bindE m f = (case m of Inl e \<Rightarrow> Inl e | Inr x \<Rightarrow> f x)"

definition safeAssert :: "bool \<Rightarrow> string \<Rightarrow> fatal + unit" where
  "safeAssert condition text = (if condition then Inr () else Inl (AssertFail text))"

text \<open>
  An array of string pointers is a list of \<open>string option\<close>. \<open>strListLen\<close> and
  \<open>strListCat\<close> walk it up to its first NULL pointer; an array without one is read past
  its end.
\<close>

text \<open>\<open>acc\<close> is the running \<open>total\<close> of the source.\<close>

fun strListLen_loop :: "nat \<Rightarrow> string option list \<Rightarrow> fatal + nat" where
  "strListLen_loop acc [] = Inl UndefinedBehaviour"
| "strListLen_loop acc (None # parts) = Inr (acc + 1)"
| "strListLen_loop acc (Some part # parts) = strListLen_loop (acc + safeStrLen part) parts"

definition strListLen :: "string option list \<Rightarrow> fatal + nat" where
  "strListLen parts = strListLen_loop 0 parts"

text \<open>
  \<open>strListCat\<close>: \<open>below\<close> holds the bytes of the target buffer below the moving pointer
  \<open>target\<close>, \<open>here\<close> those stored at and after it. Each \<open>safeStrCpy\<close> stores a part and its
  terminator at \<open>target\<close>, and \<open>target\<close> then moves over the part, onto the terminator.
  The result is the bytes stored in the buffer.
\<close>

fun strListCat_loop :: "string \<Rightarrow> string \<Rightarrow> string option list \<Rightarrow> fatal + string" where
  "strListCat_loop below here [] = Inl UndefinedBehaviour"
| "strListCat_loop below here (None # parts) = Inr (below @ here)"
| "strListCat_loop below here (Some part # parts) =
     strListCat_loop (below @ take (safeStrLen part) (safeStrCpy part))
       (drop (safeStrLen part) (safeStrCpy part)) parts"

definition strListCat :: "string option list \<Rightarrow> fatal + string" where
  "strListCat parts = strListCat_loop [] [] parts"

text \<open>\<open>writeError\<close> returns the bytes it writes to the standard error descriptor.\<close>

definition writeError :: "string option list \<Rightarrow> fatal + string" where
  "writeError parts =
     bindE (strListLen parts) (\<lambda>n.
     bindE (strListCat parts) (\<lambda>message.
     Inr (take (safeStrLen message) message)))"

text \<open>\<open>writeError(parts); abort();\<close>\<close>

definition writeError_abort :: "string option list \<Rightarrow> fatal" where
  "writeError_abort parts = (case writeError parts of Inl e \<Rightarrow> e | Inr message \<Rightarrow> Abort message)"

section \<open>The operating system\<close>

text \<open>
  The part of the process's surroundings that the interposer reads and writes: regular
  files (the trace file and the files under \<open>/proc\<close>) by path, symbolic links by path, the
  table of open descriptors, advisory locks, \<open>errno\<close>, the two process identifiers and
  \<open>environ\<close>. \<open>faults\<close> lists the outcomes that the surroundings force on the next system
  calls, one call each: an interruption by a signal, a failure, a short transfer. On an
  empty list every call does what its arguments ask for.
\<close>

datatype fault = Interrupted | Failed | Short nat

record world =
  files :: "string \<Rightarrow> string option"
  links :: "string \<Rightarrow> string option"
  fdtab :: "(int \<times> string) list"
  locks :: "string list"
  errno :: int
  faults :: "fault list"
  ppid :: "32 word"
  pid :: "32 word"
  environ :: "string option list option"

definition ENOENT :: int where "ENOENT = 2"
definition EINTR :: int where "EINTR = 4"
definition EIO :: int where "EIO = 5"
definition EBADF :: int where "EBADF = 9"
definition EACCES :: int where "EACCES = 13"
definition EINVAL :: int where "EINVAL = 22"
definition ENOLCK :: int where "ENOLCK = 37"

text \<open>A descriptor that is not in the table: one above all those in it, and above stderr.\<close>

fun fresh_fd :: "(int \<times> string) list \<Rightarrow> int" where
  "fresh_fd [] = 3"
| "fresh_fd ((fd, path) # tab) = max (fd + 1) (fresh_fd tab)"

text \<open>
  \<open>open\<close>: with \<open>creat\<close> the flags are \<open>O_WRONLY | O_APPEND | O_CREAT | O_CLOEXEC\<close> and a
  missing file is created empty; without, they are \<open>O_RDONLY | O_CLOEXEC\<close> and a missing
  file is an error.
\<close>

definition sys_open :: "world \<Rightarrow> string \<Rightarrow> bool \<Rightarrow> int \<times> world" where
  "sys_open w path creat =
     (case faults w of
        Interrupted # fs \<Rightarrow> (-1, w\<lparr>errno := EINTR, faults := fs\<rparr>)
      | Failed # fs \<Rightarrow> (-1, w\<lparr>errno := EACCES, faults := fs\<rparr>)
      | Short n # fs \<Rightarrow> (-1, w\<lparr>errno := EACCES, faults := fs\<rparr>)
      | [] \<Rightarrow>
          (case files w (cstr path) of
             None \<Rightarrow>
               if creat
               then (fresh_fd (fdtab w),
                     w\<lparr>files := (files w)(cstr path \<mapsto> []),
                       fdtab := (fresh_fd (fdtab w), cstr path) # fdtab w\<rparr>)
               else (-1, w\<lparr>errno := ENOENT\<rparr>)
           | Some content \<Rightarrow>
               (fresh_fd (fdtab w), w\<lparr>fdtab := (fresh_fd (fdtab w), cstr path) # fdtab w\<rparr>)))"

text \<open>\<open>write\<close> on a descriptor opened for appending: the bytes go to the end of the file.\<close>

definition sys_write :: "world \<Rightarrow> int \<Rightarrow> string \<Rightarrow> int \<times> world" where
  "sys_write w fd bytes =
     (case faults w of
        Interrupted # fs \<Rightarrow> (-1, w\<lparr>errno := EINTR, faults := fs\<rparr>)
      | Failed # fs \<Rightarrow> (-1, w\<lparr>errno := EIO, faults := fs\<rparr>)
      | Short n # fs \<Rightarrow>
          (case map_of (fdtab w) fd of
             None \<Rightarrow> (-1, w\<lparr>errno := EBADF, faults := fs\<rparr>)
           | Some path \<Rightarrow>
               (int (min n (length bytes)),
                w\<lparr>files := (files w)(path \<mapsto> (case files w path of None \<Rightarrow> [] | Some c \<Rightarrow> c) @ take n bytes),
                  faults := fs\<rparr>))
      | [] \<Rightarrow>
          (case map_of (fdtab w) fd of
             None \<Rightarrow> (-1, w\<lparr>errno := EBADF\<rparr>)
           | Some path \<Rightarrow>
               (int (length bytes),
                w\<lparr>files := (files w)(path \<mapsto> (case files w path of None \<Rightarrow> [] | Some c \<Rightarrow> c) @ bytes)\<rparr>)))"

text \<open>\<open>read\<close> of at most \<open>n\<close> bytes from the start of the file: the count and the bytes.\<close>

definition sys_read :: "world \<Rightarrow> int \<Rightarrow> nat \<Rightarrow> int \<times> string \<times> world" where
  "sys_read w fd n =
     (case faults w of
        Interrupted # fs \<Rightarrow> (-1, [], w\<lparr>errno := EINTR, faults := fs\<rparr>)
      | Failed # fs \<Rightarrow> (-1, [], w\<lparr>errno := EIO, faults := fs\<rparr>)
      | Short k # fs \<Rightarrow>
          (case map_of (fdtab w) fd of
             None \<Rightarrow> (-1, [], w\<lparr>errno := EBADF, faults := fs\<rparr>)
           | Some path \<Rightarrow>
               (let data = take (min k n) (case files w path of None \<Rightarrow> [] | Some c \<Rightarrow> c)
                in (int (length data), data, w\<lparr>faults := fs\<rparr>)))
      | [] \<Rightarrow>
          (case map_of (fdtab w) fd of
             None \<Rightarrow> (-1, [], w\<lparr>errno := EBADF\<rparr>)
           | Some path \<Rightarrow>
               (let data = take n (case files w path of None \<Rightarrow> [] | Some c \<Rightarrow> c)
                in (int (length data), data, w))))"

text \<open>
  \<open>readlink\<close> stores at most \<open>bufsiz\<close> bytes of the target, without a terminator, and returns
  how many; a longer target is cut short silently. A size of zero is an error.
\<close>

definition sys_readlink :: "world \<Rightarrow> string \<Rightarrow> nat \<Rightarrow> int \<times> string \<times> world" where
  "sys_readlink w path bufsiz =
     (case faults w of
        Interrupted # fs \<Rightarrow> (-1, [], w\<lparr>errno := EINTR, faults := fs\<rparr>)
      | Failed # fs \<Rightarrow> (-1, [], w\<lparr>errno := EIO, faults := fs\<rparr>)
      | Short k # fs \<Rightarrow> (-1, [], w\<lparr>errno := EIO, faults := fs\<rparr>)
      | [] \<Rightarrow>
          (if bufsiz = 0 then (-1, [], w\<lparr>errno := EINVAL\<rparr>)
           else case links w (cstr path) of
             None \<Rightarrow> (-1, [], w\<lparr>errno := ENOENT\<rparr>)
           | Some target \<Rightarrow> (int (min (length target) bufsiz), take bufsiz target, w)))"

text \<open>
  \<open>fcntl\<close> with a whole-file lock request: \<open>lock = True\<close> is \<open>F_SETLKW\<close> with \<open>F_WRLCK\<close>,
  \<open>lock = False\<close> is \<open>F_SETLK\<close> with \<open>F_UNLCK\<close>. There is one process in the model, so a
  lock that is asked for is granted.
\<close>

definition sys_fcntl_lock :: "world \<Rightarrow> int \<Rightarrow> bool \<Rightarrow> int \<times> world" where
  "sys_fcntl_lock w fd lock =
     (case faults w of
        Interrupted # fs \<Rightarrow> (-1, w\<lparr>errno := EINTR, faults := fs\<rparr>)
      | Failed # fs \<Rightarrow> (-1, w\<lparr>errno := ENOLCK, faults := fs\<rparr>)
      | Short k # fs \<Rightarrow> (-1, w\<lparr>errno := ENOLCK, faults := fs\<rparr>)
      | [] \<Rightarrow>
          (case map_of (fdtab w) fd of
             None \<Rightarrow> (-1, w\<lparr>errno := EBADF\<rparr>)
           | Some path \<Rightarrow>
               (0, w\<lparr>locks := (if lock then path # locks w else removeAll path (locks w))\<rparr>)))"

text \<open>\<open>close\<close>; the interposer ignores its result.\<close>

definition sys_close :: "world \<Rightarrow> int \<Rightarrow> world" where
  "sys_close w fd = w\<lparr>fdtab := filter (\<lambda>(d, path). d \<noteq> fd) (fdtab w)\<rparr>"

section \<open>The log file session\<close>

text \<open>
  \<open>EINTR_LOOP(expr)\<close> evaluates \<open>expr\<close> again as long as it returns \<open>-1\<close> with \<open>errno\<close> equal
  to \<open>EINTR\<close>. It is a macro; there is one function for each system call it is used on.
\<close>

function open_EINTR_LOOP :: "world \<Rightarrow> string \<Rightarrow> int \<times> world" where
  "open_EINTR_LOOP w filename =
     (if fst (sys_open w filename True) = -1 \<and> errno (snd (sys_open w filename True)) = EINTR
      then open_EINTR_LOOP (snd (sys_open w filename True)) filename
      else sys_open w filename True)"
  by pat_completeness auto
termination
proof (relation "measure (\<lambda>(w, filename). length (faults w))")
  show "wf (measure (\<lambda>(w, filename). length (faults w)))"
    by simp
next
  fix w :: world and filename :: string
  have fresh: "3 \<le> fresh_fd tab" for tab
    by (induction tab) auto
  assume "fst (sys_open w filename True) = -1 \<and> errno (snd (sys_open w filename True)) = EINTR"
  with fresh [of "fdtab w"] show "((snd (sys_open w filename True), filename), (w, filename))
               \<in> measure (\<lambda>(w, filename). length (faults w))"
    by (auto simp: sys_open_def EINTR_def EACCES_def ENOENT_def
             split: list.splits fault.splits option.splits if_splits)
qed

declare open_EINTR_LOOP.simps [simp del]

function fcntl_EINTR_LOOP :: "world \<Rightarrow> int \<Rightarrow> int \<times> world" where
  "fcntl_EINTR_LOOP w fd =
     (if fst (sys_fcntl_lock w fd True) = -1 \<and> errno (snd (sys_fcntl_lock w fd True)) = EINTR
      then fcntl_EINTR_LOOP (snd (sys_fcntl_lock w fd True)) fd
      else sys_fcntl_lock w fd True)"
  by pat_completeness auto
termination
proof (relation "measure (\<lambda>(w, fd). length (faults w))")
  show "wf (measure (\<lambda>(w, fd). length (faults w)))"
    by simp
next
  fix w :: world and fd :: int
  assume "fst (sys_fcntl_lock w fd True) = -1 \<and> errno (snd (sys_fcntl_lock w fd True)) = EINTR"
  then show "((snd (sys_fcntl_lock w fd True), fd), (w, fd))
               \<in> measure (\<lambda>(w, fd). length (faults w))"
    by (auto simp: sys_fcntl_lock_def EINTR_def ENOLCK_def EBADF_def
             split: list.splits fault.splits option.splits if_splits)
qed

declare fcntl_EINTR_LOOP.simps [simp del]

function write_EINTR_LOOP :: "world \<Rightarrow> int \<Rightarrow> string \<Rightarrow> int \<times> world" where
  "write_EINTR_LOOP w fd bytes =
     (if fst (sys_write w fd bytes) = -1 \<and> errno (snd (sys_write w fd bytes)) = EINTR
      then write_EINTR_LOOP (snd (sys_write w fd bytes)) fd bytes
      else sys_write w fd bytes)"
  by pat_completeness auto
termination
proof (relation "measure (\<lambda>(w, fd, bytes). length (faults w))")
  show "wf (measure (\<lambda>(w, fd, bytes). length (faults w)))"
    by simp
next
  fix w :: world and fd :: int and bytes :: string
  assume "fst (sys_write w fd bytes) = -1 \<and> errno (snd (sys_write w fd bytes)) = EINTR"
  then show "((snd (sys_write w fd bytes), fd, bytes), (w, fd, bytes))
               \<in> measure (\<lambda>(w, fd, bytes). length (faults w))"
    by (auto simp: sys_write_def EINTR_def EIO_def EBADF_def
             split: list.splits fault.splits option.splits if_splits)
qed

declare write_EINTR_LOOP.simps [simp del]

text \<open>
  \<open>LogFile\<close>: the descriptor, the 1024-byte staging buffer and its fill count. The count
  is an \<open>int\<close> in the source that only ever counts up from zero; it is a natural number
  here.
\<close>

record LogFile =
  fd :: int
  buf :: string
  bufCount :: nat

definition sizeof_buf :: nat where
  "sizeof_buf = 1024"

text \<open>
  \<open>LogFile logFile;\<close> in \<open>logExecution\<close> is not initialised. The bytes of its buffer are
  not read before they are written; they are NUL in the model.
\<close>

definition uninitialised_LogFile :: LogFile where
  "uninitialised_LogFile = \<lparr>fd = 0, buf = replicate sizeof_buf NUL, bufCount = 0\<rparr>"

definition openLogFile :: "LogFile \<Rightarrow> string \<Rightarrow> world \<Rightarrow> fatal + (LogFile \<times> world)" where
  "openLogFile logFile filename w =
     (let logFile1 = logFile\<lparr>fd := 0, bufCount := 0\<rparr>;
          w1 = w\<lparr>errno := 0\<rparr>;
          (ret, w2) = open_EINTR_LOOP w1 filename;
          logFile2 = logFile1\<lparr>fd := ret\<rparr>
      in bindE (safeAssert (fd logFile2 \<noteq> -1) ''Error opening trace file for append.'') (\<lambda>_.
         let (lockRet, w3) = fcntl_EINTR_LOOP w2 (fd logFile2)
         in bindE (safeAssert (lockRet = 0) ''Error locking trace file.'') (\<lambda>_.
            Inr (logFile2, w3))))"

text \<open>
  \<open>flushLogFile\<close> hands the first \<open>bufCount\<close> bytes of the buffer to \<open>write\<close>. A fill
  count above the size of the buffer would make \<open>write\<close> read past the buffer.
\<close>

definition flushLogFile :: "LogFile \<Rightarrow> world \<Rightarrow> fatal + (LogFile \<times> world)" where
  "flushLogFile logFile w =
     (if length (buf logFile) < bufCount logFile then Inl UndefinedBehaviour
      else
        let (amount, w') = write_EINTR_LOOP w (fd logFile) (take (bufCount logFile) (buf logFile))
        in bindE (safeAssert (amount = int (bufCount logFile)) ''Error writing to trace file.'') (\<lambda>_.
           Inr (logFile\<lparr>bufCount := 0\<rparr>, w')))"

definition writeChar :: "LogFile \<Rightarrow> char \<Rightarrow> world \<Rightarrow> fatal + (LogFile \<times> world)" where
  "writeChar logFile ch w =
     bindE (if bufCount logFile = sizeof_buf then flushLogFile logFile w else Inr (logFile, w))
       (\<lambda>(logFile', w').
          if bufCount logFile' < length (buf logFile')
          then Inr (logFile'\<lparr>buf := (buf logFile')[bufCount logFile' := ch],
                              bufCount := bufCount logFile' + 1\<rparr>, w')
          else Inl UndefinedBehaviour)"

definition closeLogFile :: "LogFile \<Rightarrow> world \<Rightarrow> fatal + world" where
  "closeLogFile logFile w =
     bindE (flushLogFile logFile w) (\<lambda>(logFile', w').
     let (unlockRet, w'') = sys_fcntl_lock w' (fd logFile') False
     in bindE (safeAssert (unlockRet = 0) ''Error unlocking trace file.'') (\<lambda>_.
        Inr (sys_close w'' (fd logFile'))))"

fun writeString :: "LogFile \<Rightarrow> string \<Rightarrow> world \<Rightarrow> fatal + (LogFile \<times> world)" where
  "writeString logFile [] w = Inr (logFile, w)"
| "writeString logFile (ch # text) w =
     (if ch = NUL then Inr (logFile, w)
      else case writeChar logFile ch w of
             Inl e \<Rightarrow> Inl e
           | Inr (logFile', w') \<Rightarrow> writeString logFile' text w')"

text \<open>
  \<open>writeEscapedString\<close>: spaces and newlines are quoted, backslashes and quotes are
  escaped. The loop index is an \<open>int\<close> in the source and a position in the list here.
\<close>

fun writeEscapedString_loop :: "LogFile \<Rightarrow> string \<Rightarrow> world \<Rightarrow> fatal + (LogFile \<times> world)" where
  "writeEscapedString_loop logFile [] w = Inr (logFile, w)"
| "writeEscapedString_loop logFile (ch # text) w =
     (if ch = NUL then Inr (logFile, w)
      else case (if ch = CHR 0x5C \<or> ch = CHR 0x22 then writeChar logFile (CHR 0x5C) w
                 else Inr (logFile, w)) of
             Inl e \<Rightarrow> Inl e
           | Inr (logFile1, w1) \<Rightarrow>
               (case writeChar logFile1 ch w1 of
                  Inl e \<Rightarrow> Inl e
                | Inr (logFile2, w2) \<Rightarrow> writeEscapedString_loop logFile2 text w2))"

definition writeEscapedString :: "LogFile \<Rightarrow> string \<Rightarrow> world \<Rightarrow> fatal + (LogFile \<times> world)" where
  "writeEscapedString logFile text w =
     (let needsQuotes = (safeStrChr text (CHR '' '') \<noteq> None \<or> safeStrChr text (CHR 0x0A) \<noteq> None)
      in bindE (if needsQuotes then writeChar logFile (CHR 0x22) w else Inr (logFile, w))
           (\<lambda>(logFile1, w1).
         bindE (writeEscapedString_loop logFile1 text w1) (\<lambda>(logFile2, w2).
         if needsQuotes then writeChar logFile2 (CHR 0x22) w2 else Inr (logFile2, w2))))"

section \<open>The record writer\<close>

text \<open>
  The process-wide values that \<open>_init\<close> sets: the trace file's name (a 1024-byte buffer
  that starts out as NUL bytes), the boot time in jiffies, and the two functions that
  \<open>dlsym(RTLD_NEXT, ...)\<close> returned.
\<close>

type_synonym real_exec =
  "string option \<Rightarrow> string option list option \<Rightarrow> string option list option \<Rightarrow> world \<Rightarrow> int \<times> world"

record globals =
  g_logFileName :: string
  g_bootTimeInJiffies :: "64 word"
  real_execve :: real_exec
  real_execvpe :: real_exec

text \<open>
  The step of \<open>_init\<close> that sets \<open>g_logFileName\<close> from \<open>getenv("BTRACE_LOG")\<close>:
  \<open>safeStrCpy\<close> stores the value at the start of the buffer, if it is there and shorter
  than the buffer.
\<close>

definition sizeof_g_logFileName :: nat where
  "sizeof_g_logFileName = 1024"

definition init_g_logFileName :: "string option \<Rightarrow> string" where
  "init_g_logFileName logFileVar =
     (case logFileVar of
        None \<Rightarrow> replicate sizeof_g_logFileName NUL
      | Some v \<Rightarrow>
          if safeStrLen v < sizeof_g_logFileName
          then safeStrCpy v @ drop (length (safeStrCpy v)) (replicate sizeof_g_logFileName NUL)
          else replicate sizeof_g_logFileName NUL)"

text \<open>The conversion of an \<open>ssize_t\<close> to \<open>size_t\<close>.\<close>

definition size_t_of :: "int \<Rightarrow> nat" where
  "size_t_of amount = nat (amount mod 2 ^ 64)"

definition attemptWriteSymLinkTarget ::
    "LogFile \<Rightarrow> string \<Rightarrow> nat \<Rightarrow> world \<Rightarrow> fatal + (bool \<times> LogFile \<times> world)" where
  "attemptWriteSymLinkTarget logFile symLinkTarget bufsiz w =
     (let (amount, data, w1) = sys_readlink w symLinkTarget bufsiz
      in if amount = -1
         then Inl (writeError_abort
                [Some ''libbtrace.so: Error calling readlink on '', Some symLinkTarget, None])
         else if size_t_of amount < bufsiz
         then bindE (writeEscapedString logFile (data @ [NUL]) w1) (\<lambda>(logFile2, w2).
              bindE (writeChar logFile2 (CHR 0x0A) w2) (\<lambda>(logFile3, w3).
              Inr (True, logFile3, w3)))
         else bindE (safeAssert (size_t_of amount = bufsiz) ''Invalid return value from readlink'') (\<lambda>_.
              Inr (False, logFile, w1)))"

text \<open>
  The loop of \<open>writeSymLinkTarget\<close>. The result's first component is \<open>success\<close>. An attempt
  with a buffer of no bytes cannot return at all, so the size grows with each iteration.
\<close>

function writeSymLinkTarget_loop ::
    "LogFile \<Rightarrow> string \<Rightarrow> nat \<Rightarrow> world \<Rightarrow> fatal + (bool \<times> LogFile \<times> world)" where
  "writeSymLinkTarget_loop logFile symLinkTarget bufSize w =
     (if bufSize < 1024 * 1024
      then (case attemptWriteSymLinkTarget logFile symLinkTarget bufSize w of
              Inl e \<Rightarrow> Inl e
            | Inr r \<Rightarrow>
                if fst r then Inr r
                else writeSymLinkTarget_loop (fst (snd r)) symLinkTarget (bufSize * 2) (snd (snd r)))
      else Inr (False, logFile, w))"
  by pat_completeness auto
termination
proof (relation "measure (\<lambda>(logFile, symLinkTarget, bufSize, w). 1024 * 1024 - bufSize)")
  show "wf (measure (\<lambda>(logFile, symLinkTarget, bufSize, w). 1024 * 1024 - bufSize))"
    by simp
next
  fix logFile :: LogFile and symLinkTarget :: string and bufSize :: nat and w :: world
    and r :: "bool \<times> LogFile \<times> world"
  assume small: "bufSize < 1024 * 1024"
    and res: "attemptWriteSymLinkTarget logFile symLinkTarget bufSize w = Inr r"
  have "bufSize \<noteq> 0"
  proof
    assume "bufSize = 0"
    then have "fst (sys_readlink w symLinkTarget bufSize) = -1"
      by (simp add: sys_readlink_def split: list.splits fault.splits)
    then show False
      using res by (simp add: attemptWriteSymLinkTarget_def split: prod.splits)
  qed
  then show "((fst (snd r), symLinkTarget, bufSize * 2, snd (snd r)), (logFile, symLinkTarget, bufSize, w))
               \<in> measure (\<lambda>(logFile, symLinkTarget, bufSize, w). 1024 * 1024 - bufSize)"
    using small by simp
qed

declare writeSymLinkTarget_loop.simps [simp del]

text \<open>
  The array of the last diagnostic has no NULL pointer at its end in the source.
\<close>

definition writeSymLinkTarget :: "LogFile \<Rightarrow> string \<Rightarrow> world \<Rightarrow> fatal + (LogFile \<times> world)" where
  "writeSymLinkTarget logFile symLinkTarget w =
     bindE (writeSymLinkTarget_loop logFile symLinkTarget 256 w) (\<lambda>(success, logFile', w').
     if \<not> success
     then Inl (writeError_abort [Some ''libbtrace.so: Error reading symlink '', Some symLinkTarget])
     else Inr (logFile', w'))"

text \<open>
  Moving a pointer forward inside a buffer whose bytes up to its terminator are known: a
  pointer moved past the last known byte is read from afterwards.
\<close>

definition ptr_add :: "string \<Rightarrow> nat \<Rightarrow> fatal + string" where
  "ptr_add p n = (if n < length p then Inr (drop n p) else Inl UndefinedBehaviour)"

text \<open>\<open>for (int i = 3; i < 22; ++i)\<close> in \<open>writePid\<close>: from field \<open>i\<close> to field 22.\<close>

function writePid_advance :: "nat \<Rightarrow> string \<Rightarrow> fatal + string" where
  "writePid_advance i p =
     (if i < 22
      then (case safeStrChr p (CHR '' '') of
              None \<Rightarrow> Inl (AssertFail ''Could not find starttime field in proc/<pid>/stat'')
            | Some q \<Rightarrow>
                (case ptr_add q 1 of
                   Inl e \<Rightarrow> Inl e
                 | Inr p' \<Rightarrow> writePid_advance (i + 1) p'))
      else Inr p)"
  by pat_completeness auto
termination
  by (relation "measure (\<lambda>(i, p). 22 - i)") auto

declare writePid_advance.simps [simp del]

text \<open>
  The last block of \<open>writePid\<close>, from the bytes that \<open>read\<close> returned to the decimal start
  time: \<open>procStatContent\<close> is those bytes and the terminator stored after them.
\<close>

definition writePid_startTime :: "globals \<Rightarrow> string \<Rightarrow> fatal + string" where
  "writePid_startTime g data =
     (let procStatContent = data @ [NUL]
      in case safeStrRChr procStatContent (CHR '')'') of
           None \<Rightarrow> Inl (AssertFail ''No ) found in /proc/<pid>/stat'')
         | Some p0 \<Rightarrow>
             bindE (ptr_add p0 2) (\<lambda>p3.
             bindE (writePid_advance 3 p3) (\<lambda>p.
             bindE (safeAssert (safeStrChr p (CHR '' '') \<noteq> None)
                      ''Could not find end of starttime field in /proc/<pid>/stat'') (\<lambda>_.
             Inr (uint64ToString (g_bootTimeInJiffies g + stringToUint64 p))))))"

definition writePid :: "globals \<Rightarrow> LogFile \<Rightarrow> 32 word \<Rightarrow> world \<Rightarrow> fatal + (LogFile \<times> world)" where
  "writePid g logFile p w =
     (let pidString = uint64ToString (ucast p)
      in bindE (writeString logFile pidString w) (\<lambda>(logFile1, w1).
         bindE (writeChar logFile1 (CHR 0x0A) w1) (\<lambda>(logFile2, w2).
         bindE (strListCat [Some ''/proc/'', Some pidString, Some ''/stat'', None]) (\<lambda>procStatPath.
         let (statFd, w3) = sys_open w2 procStatPath False
         in if statFd = -1
            then Inl (writeError_abort [Some ''libbtrace.so: Error opening '', Some procStatPath, None])
            else
              let (amt, data, w4) = sys_read w3 statFd (1024 - 1)
              in bindE (safeAssert (0 \<le> amt) ''Error reading /proc/<pid>/stat'') (\<lambda>_.
                 bindE (writePid_startTime g data) (\<lambda>startTime.
                 bindE (writeString logFile2 startTime w4) (\<lambda>(logFile5, w5).
                 writeChar logFile5 (CHR 0x0A) w5)))))))"

text \<open>
  The loop over \<open>argv\<close> in \<open>logExecution\<close>; \<open>i\<close> is its index and the list holds
  \<open>argv[i]\<close>, \<open>argv[i + 1]\<close>, ... An array without a NULL pointer is read past its end.
\<close>

fun logExecution_args :: "nat \<Rightarrow> LogFile \<Rightarrow> string option list \<Rightarrow> world \<Rightarrow> fatal + (LogFile \<times> world)" where
  "logExecution_args i logFile [] w = Inl UndefinedBehaviour"
| "logExecution_args i logFile (a # argv) w =
     (if a = hiddenNull then Inr (logFile, w)
      else case (if 0 < i then writeChar logFile (CHR '' '') w else Inr (logFile, w)) of
             Inl e \<Rightarrow> Inl e
           | Inr (logFile1, w1) \<Rightarrow>
               (case writeEscapedString logFile1 (the a) w1 of
                  Inl e \<Rightarrow> Inl e
                | Inr (logFile2, w2) \<Rightarrow> logExecution_args (i + 1) logFile2 argv w2))"

text \<open>The step of \<open>logExecution\<close> that writes the arguments, up to the newline after them.\<close>

definition logExecution_argv ::
    "LogFile \<Rightarrow> string option list option \<Rightarrow> world \<Rightarrow> fatal + (LogFile \<times> world)" where
  "logExecution_argv logFile argv w =
     (if argv \<noteq> hiddenNull then logExecution_args 0 logFile (the argv) w else Inr (logFile, w))"

text \<open>
  \<open>logExecution\<close>. A NULL \<open>filename\<close> is dereferenced by \<open>writeEscapedString\<close>.
\<close>

definition logExecution ::
    "globals \<Rightarrow> string option \<Rightarrow> string option list option \<Rightarrow> world \<Rightarrow> fatal + world" where
  "logExecution g filename argv w =
     (if (case g_logFileName g of [] \<Rightarrow> True | ch # _ \<Rightarrow> ch = NUL) then Inr w
      else
        bindE (openLogFile uninitialised_LogFile (g_logFileName g) w) (\<lambda>(logFile0, w0).
        bindE (writeString logFile0 ''exec\<newline>'' w0) (\<lambda>(logFile1, w1).
        bindE (writePid g logFile1 (ppid w1) w1) (\<lambda>(logFile2, w2).
        bindE (writePid g logFile2 (pid w2) w2) (\<lambda>(logFile3, w3).
        bindE (writeSymLinkTarget logFile3 ''/proc/self/cwd'' w3) (\<lambda>(logFile4, w4).
        bindE (case filename of
                 None \<Rightarrow> Inl UndefinedBehaviour
               | Some text \<Rightarrow> writeEscapedString logFile4 text w4) (\<lambda>(logFile5, w5).
        bindE (writeChar logFile5 (CHR 0x0A) w5) (\<lambda>(logFile6, w6).
        bindE (logExecution_argv logFile6 argv w6) (\<lambda>(logFile7, w7).
        bindE (writeChar logFile7 (CHR 0x0A) w7) (\<lambda>(logFile8, w8).
        bindE (writeChar logFile8 (CHR 0x0A) w8) (\<lambda>(logFile9, w9).
        closeLogFile logFile9 w9)))))))))))"

section \<open>The interception surface\<close>

definition wrap_execve ::
    "globals \<Rightarrow> string option \<Rightarrow> string option list option \<Rightarrow> string option list option
      \<Rightarrow> world \<Rightarrow> fatal + (int \<times> world)" where
  "wrap_execve g path argv envp w =
     bindE (logExecution g path argv w) (\<lambda>w'. Inr (real_execve g path argv envp w'))"

definition wrap_execvpe ::
    "globals \<Rightarrow> string option \<Rightarrow> string option list option \<Rightarrow> string option list option
      \<Rightarrow> world \<Rightarrow> fatal + (int \<times> world)" where
  "wrap_execvpe g file argv envp w =
     bindE (logExecution g file argv w) (\<lambda>w'. Inr (real_execvpe g file argv envp w'))"

definition execv :: "globals \<Rightarrow> string option \<Rightarrow> string option list option \<Rightarrow> world \<Rightarrow> fatal + (int \<times> world)" where
  "execv g path argv w = wrap_execve g path argv (environ w) w"

definition execvp :: "globals \<Rightarrow> string option \<Rightarrow> string option list option \<Rightarrow> world \<Rightarrow> fatal + (int \<times> world)" where
  "execvp g file argv w = wrap_execvpe g file argv (environ w) w"

definition execve ::
    "globals \<Rightarrow> string option \<Rightarrow> string option list option \<Rightarrow> string option list option
      \<Rightarrow> world \<Rightarrow> fatal + (int \<times> world)" where
  "execve g path argv envp w = wrap_execve g path argv envp w"

definition execvpe ::
    "globals \<Rightarrow> string option \<Rightarrow> string option list option \<Rightarrow> string option list option
      \<Rightarrow> world \<Rightarrow> fatal + (int \<times> world)" where
  "execvpe g file argv envp w = wrap_execvpe g file argv envp w"

text \<open>
  The variable arguments of a call are a list: a NULL pointer, a string, or an
  environment vector. \<open>va_arg\<close> takes the next one at the type asked for; there is no
  next one after the last, and a string is not a vector.
\<close>

datatype va_item = VaNull | VaStr string | VaEnv "string option list"

fun va_arg_charp :: "va_item list \<Rightarrow> fatal + (string option \<times> va_item list)" where
  "va_arg_charp [] = Inl UndefinedBehaviour"
| "va_arg_charp (VaNull # ap) = Inr (None, ap)"
| "va_arg_charp (VaStr s # ap) = Inr (Some s, ap)"
| "va_arg_charp (VaEnv e # ap) = Inl UndefinedBehaviour"

fun va_arg_charpp :: "va_item list \<Rightarrow> fatal + (string option list option \<times> va_item list)" where
  "va_arg_charpp [] = Inl UndefinedBehaviour"
| "va_arg_charpp (VaNull # ap) = Inr (None, ap)"
| "va_arg_charpp (VaStr s # ap) = Inl UndefinedBehaviour"
| "va_arg_charpp (VaEnv e # ap) = Inr (Some e, ap)"

text \<open>\<open>while (va_arg(AP, const char*) != NULL) COUNT++;\<close>\<close>

fun ARG_COUNT_loop :: "nat \<Rightarrow> va_item list \<Rightarrow> fatal + nat" where
  "ARG_COUNT_loop COUNT [] = Inl UndefinedBehaviour"
| "ARG_COUNT_loop COUNT (VaNull # ap) = Inr COUNT"
| "ARG_COUNT_loop COUNT (VaStr s # ap) = ARG_COUNT_loop (COUNT + 1) ap"
| "ARG_COUNT_loop COUNT (VaEnv e # ap) = Inl UndefinedBehaviour"

definition ARG_COUNT :: "string option \<Rightarrow> va_item list \<Rightarrow> fatal + nat" where
  "ARG_COUNT ARG_PARAM ap =
     (if ARG_PARAM \<noteq> hiddenNull then ARG_COUNT_loop (0 + 1) ap else Inr 0)"

text \<open>
  \<open>for (int i = 1; i < count; ++i) argv[i] = va_arg(ap, char*);\<close> The result is
  \<open>argv[i]\<close>, ..., \<open>argv[count - 1]\<close> and the rest of the variable arguments.
\<close>

function fill_argv :: "nat \<Rightarrow> nat \<Rightarrow> va_item list \<Rightarrow> fatal + (string option list \<times> va_item list)" where
  "fill_argv i count ap =
     (if i < count
      then (case va_arg_charp ap of
              Inl e \<Rightarrow> Inl e
            | Inr r \<Rightarrow>
                (case fill_argv (i + 1) count (snd r) of
                   Inl e \<Rightarrow> Inl e
                 | Inr r' \<Rightarrow> Inr (fst r # fst r', snd r')))
      else Inr ([], ap))"
  by pat_completeness auto
termination
  by (relation "measure (\<lambda>(i, count, ap). count - i)") auto

declare fill_argv.simps [simp del]

definition execl :: "globals \<Rightarrow> string option \<Rightarrow> string option \<Rightarrow> va_item list \<Rightarrow> world \<Rightarrow> fatal + (int \<times> world)" where
  "execl g path arg va w =
     bindE (ARG_COUNT arg va) (\<lambda>count.
     bindE (if arg \<noteq> hiddenNull
            then bindE (fill_argv 1 count va) (\<lambda>(rest, ap). Inr (arg # rest, ap))
            else Inr ([], va)) (\<lambda>(filled, ap).
     wrap_execve g path (Some (filled @ [None])) (environ w) w))"

definition execlp :: "globals \<Rightarrow> string option \<Rightarrow> string option \<Rightarrow> va_item list \<Rightarrow> world \<Rightarrow> fatal + (int \<times> world)" where
  "execlp g file arg va w =
     bindE (ARG_COUNT arg va) (\<lambda>count.
     bindE (if arg \<noteq> hiddenNull
            then bindE (fill_argv 1 count va) (\<lambda>(rest, ap). Inr (arg # rest, ap))
            else Inr ([], va)) (\<lambda>(filled, ap).
     wrap_execvpe g file (Some (filled @ [None])) (environ w) w))"

text \<open>
  \<open>execle\<close>: inside the branch, one more \<open>va_arg\<close> steps over the NULL that ends the
  arguments; the environment pointer is taken after the branch.
\<close>

definition execle :: "globals \<Rightarrow> string option \<Rightarrow> string option \<Rightarrow> va_item list \<Rightarrow> world \<Rightarrow> fatal + (int \<times> world)" where
  "execle g path arg va w =
     bindE (ARG_COUNT arg va) (\<lambda>count.
     bindE (if arg \<noteq> hiddenNull
            then bindE (fill_argv 1 count va) (\<lambda>(rest, ap).
                 bindE (va_arg_charp ap) (\<lambda>(skipped, ap').
                 Inr (arg # rest, ap')))
            else Inr ([], va)) (\<lambda>(filled, ap).
     bindE (va_arg_charpp ap) (\<lambda>(envp, ap').
     wrap_execve g path (Some (filled @ [None])) envp w)))"

section \<open>The log format in the specification's words\<close>

text \<open>
  The definitions of this section follow the specification, not the source; the
  theorems compare the source's functions with them.

  Inside a value, each backslash and each double quote is prefixed by a backslash, and
  all other bytes are written verbatim.
\<close>

fun spec_escape :: "string \<Rightarrow> string" where
  "spec_escape [] = []"
| "spec_escape (ch # s) =
     (if ch = CHR 0x5C \<or> ch = CHR 0x22 then CHR 0x5C # ch # spec_escape s
      else ch # spec_escape s)"

text \<open>A value that contains a space or a newline is surrounded by double quotes.\<close>

definition spec_field :: "string \<Rightarrow> string" where
  "spec_field s =
     (if CHR '' '' \<in> set s \<or> CHR 0x0A \<in> set s
      then [CHR 0x22] @ spec_escape s @ [CHR 0x22]
      else spec_escape s)"

text \<open>
  Decoding a field: remove the enclosing double quotes if present, then replace each
  backslash-backslash pair by a backslash and each backslash-quote pair by a quote,
  reading from left to right.
\<close>

definition spec_strip_quotes :: "string \<Rightarrow> string" where
  "spec_strip_quotes s =
     (if 2 \<le> length s \<and> hd s = CHR 0x22 \<and> last s = CHR 0x22 then butlast (tl s) else s)"

fun spec_unescape :: "string \<Rightarrow> string" where
  "spec_unescape (a # b # s) =
     (if a = CHR 0x5C \<and> (b = CHR 0x5C \<or> b = CHR 0x22) then b # spec_unescape s
      else a # spec_unescape (b # s))"
| "spec_unescape s = s"

definition spec_decode :: "string \<Rightarrow> string" where
  "spec_decode s = spec_unescape (spec_strip_quotes s)"

text \<open>The argument line without its newline: the fields, one space between neighbours.\<close>

fun spec_arg_line :: "string list \<Rightarrow> string" where
  "spec_arg_line [] = []"
| "spec_arg_line [a] = spec_field a"
| "spec_arg_line (a # b # args) = spec_field a @ [CHR '' ''] @ spec_arg_line (b # args)"

text \<open>
  The record of one execution: nine items, each followed by a newline; the last item is
  empty, which makes the blank line.
\<close>

definition spec_record ::
    "string \<Rightarrow> string \<Rightarrow> string \<Rightarrow> string \<Rightarrow> string \<Rightarrow> string \<Rightarrow> string list \<Rightarrow> string" where
  "spec_record parent parent_start self self_start cwd filename args =
     concat (map (\<lambda>item. item @ [CHR 0x0A])
       [''exec'', parent, parent_start, self, self_start,
        spec_field cwd, spec_field filename, spec_arg_line args, []])"

text \<open>The lines of a text: the runs of bytes that a newline ends.\<close>

fun spec_lines_from :: "string \<Rightarrow> string \<Rightarrow> string list" where
  "spec_lines_from cur [] = []"
| "spec_lines_from cur (ch # s) =
     (if ch = CHR 0x0A then rev cur # spec_lines_from [] s else spec_lines_from (ch # cur) s)"

definition spec_lines :: "string \<Rightarrow> string list" where
  "spec_lines s = spec_lines_from [] s"

section \<open>The state of a session\<close>

text \<open>
  What a session has written so far: the bytes of the trace file followed by the staged
  bytes.
\<close>

definition written :: "string \<Rightarrow> LogFile \<Rightarrow> world \<Rightarrow> string" where
  "written path logFile w =
     (case files w path of None \<Rightarrow> [] | Some c \<Rightarrow> c) @ take (bufCount logFile) (buf logFile)"

text \<open>The invariant of the staging buffer.\<close>

definition buf_ok :: "LogFile \<Rightarrow> bool" where
  "buf_ok logFile \<longleftrightarrow> bufCount logFile \<le> sizeof_buf \<and> length (buf logFile) = sizeof_buf"

text \<open>
  A session on the trace file \<open>path\<close> in surroundings that force no fault on it.
\<close>

definition session_ok :: "string \<Rightarrow> LogFile \<Rightarrow> world \<Rightarrow> bool" where
  "session_ok path logFile w \<longleftrightarrow>
     faults w = [] \<and> map_of (fdtab w) (fd logFile) = Some path \<and> buf_ok logFile"

text \<open>What a session leaves alone: everything but the trace file, descriptors, locks and errno.\<close>

definition same_surroundings :: "string \<Rightarrow> world \<Rightarrow> world \<Rightarrow> bool" where
  "same_surroundings path w w' \<longleftrightarrow>
     links w' = links w \<and> (files w')(path := None) = (files w)(path := None)
     \<and> ppid w' = ppid w \<and> pid w' = pid w \<and> environ w' = environ w"

text \<open>
  An operation of a session that succeeds and appends the bytes \<open>bs\<close> to what the session
  has written.
\<close>

definition appends :: "string \<Rightarrow> LogFile \<Rightarrow> world \<Rightarrow> string \<Rightarrow> fatal + (LogFile \<times> world) \<Rightarrow> bool" where
  "appends path logFile w bs r \<longleftrightarrow>
     (case r of
        Inl e \<Rightarrow> False
      | Inr (logFile', w') \<Rightarrow>
          session_ok path logFile' w' \<and> same_surroundings path w w'
          \<and> written path logFile' w' = written path logFile w @ bs)"

text \<open>The path that \<open>writePid\<close> builds for a process.\<close>

definition procStatPath :: "32 word \<Rightarrow> string" where
  "procStatPath p = ''/proc/'' @ cstr (uint64ToString (ucast p)) @ ''/stat''"

text \<open>
  The rest of a session, from the state \<open>(logFile, w)\<close> on, ends well: the session is
  closed and the trace file holds what was written before and then the bytes \<open>bs\<close>.
\<close>

definition finishes :: "string \<Rightarrow> world \<Rightarrow> LogFile \<Rightarrow> world \<Rightarrow> string \<Rightarrow> fatal + world \<Rightarrow> bool" where
  "finishes path w0 logFile w bs r \<longleftrightarrow>
     (case r of
        Inl e \<Rightarrow> False
      | Inr w' \<Rightarrow>
          files w' path = Some (written path logFile w @ bs) \<and> same_surroundings path w0 w')"

text \<open>What a session operation has written when it returns, and the trace file after a run.\<close>

definition session_written :: "string \<Rightarrow> fatal + (LogFile \<times> world) \<Rightarrow> string option" where
  "session_written path r =
     (case r of Inl e \<Rightarrow> None | Inr (logFile, w) \<Rightarrow> Some (written path logFile w))"

definition trace_file :: "string \<Rightarrow> fatal + world \<Rightarrow> string option" where
  "trace_file path r = (case r of Inl e \<Rightarrow> None | Inr w \<Rightarrow> files w path)"

section \<open>An example run\<close>

text \<open>
  The surroundings of the specification's end-to-end scenarios: the trace file is
  \<open>/tmp/t.log\<close>, the parent is process 100 and started at tick 5000, the process itself
  is 200 and started at tick 6000, and the working directory is \<open>/w\<close>. The boot time is
  tick 0. The parent's executable name contains a closing parenthesis and spaces.
\<close>

definition example_stat_parent :: string where
  "example_stat_parent =
     ''100 (a) b c) S 1 100 100 0 -1 4194560 500 0 0 0 1 2 0 0 20 0 1 0 5000 1000 2000 18446744073709551615''"

definition example_stat_self :: string where
  "example_stat_self =
     ''200 (ls) R 100 200 100 0 -1 4194560 500 0 0 0 1 2 0 0 20 0 1 0 6000 1000 2000 18446744073709551615''"

definition example_world :: world where
  "example_world =
     \<lparr>files = [''/proc/100/stat'' \<mapsto> example_stat_parent, ''/proc/200/stat'' \<mapsto> example_stat_self],
      links = [''/proc/self/cwd'' \<mapsto> ''/w''],
      fdtab = [], locks = [], errno = 0, faults = [],
      ppid = 100, pid = 200, environ = Some [Some ''HOME=/'', None]\<rparr>"

text \<open>In the example the next function in the chain fails with \<open>ENOENT\<close>.\<close>

definition example_real_exec :: real_exec where
  "example_real_exec path argv envp w = (-1, w\<lparr>errno := ENOENT\<rparr>)"

definition example_globals :: globals where
  "example_globals =
     \<lparr>g_logFileName = init_g_logFileName (Some ''/tmp/t.log''),
      g_bootTimeInJiffies = 0,
      real_execve = example_real_exec,
      real_execvpe = example_real_exec\<rparr>"

text \<open>A session on the example's trace file, just opened.\<close>

definition example_LogFile :: LogFile where
  "example_LogFile = uninitialised_LogFile\<lparr>fd := 3\<rparr>"

definition example_session_world :: world where
  "example_session_world = example_world\<lparr>fdtab := [(3, ''/tmp/t.log'')]\<rparr>"

text \<open>The same session with a working directory whose name is 1 MiB - 1 bytes long.\<close>

definition example_long_cwd_world :: world where
  "example_long_cwd_world =
     example_session_world\<lparr>links := [''/proc/self/cwd'' \<mapsto> replicate 1048575 (CHR ''a'')]\<rparr>"

text \<open>A session whose staging buffer is full.\<close>

definition example_full_LogFile :: LogFile where
  "example_full_LogFile = \<lparr>fd = 3, buf = replicate sizeof_buf (CHR ''x''), bufCount = sizeof_buf\<rparr>"

section \<open>Decimal conversion: facts\<close>

lemma of_char_digit: "k < 10 \<Longrightarrow> (of_char (char_of (48 + k :: nat)) :: nat) = 48 + k"
  by simp

lemma safeIsDigit_digit: "k < 10 \<Longrightarrow> safeIsDigit (char_of (48 + k :: nat))"
  by (simp add: safeIsDigit_def)

lemma digit_value_digit: "k < 10 \<Longrightarrow> digit_value (char_of (48 + k :: nat)) = k"
  by (simp add: digit_value_def)

lemma safeIsDigit_not_NUL: "safeIsDigit ch \<Longrightarrow> ch \<noteq> NUL"
  by (auto simp: safeIsDigit_def NUL_def)

lemma not_safeIsDigit_NUL: "\<not> safeIsDigit NUL"
  by (auto simp: safeIsDigit_def NUL_def)

lemma char_of_48: "char_of (48 :: nat) = CHR ''0''"
  using char_of_char [of "CHR ''0''", where ?'a = nat] by simp

lemma unat_mod10: "unat ((val :: 64 word) mod 10) < 10"
  by (simp add: unat_mod)

lemma unat_div10_less: "(val :: 64 word) div 10 \<noteq> 0 \<Longrightarrow> unat (val div 10) < unat val"
proof -
  assume nz: "val div 10 \<noteq> 0"
  have "unat val \<noteq> 0"
    using nz by (auto simp: unat_eq_0)
  then have "unat val div 10 < unat val"
    by simp
  then show ?thesis
    by (simp add: unat_div)
qed

lemma uint64ToString_loop_append:
  "uint64ToString_loop val ptr = uint64ToString_loop val [] @ ptr"
proof (induction val arbitrary: ptr rule: measure_induct_rule [where f = unat])
  case (less val)
  show ?case
  proof (cases "val div 10 = 0")
    case True
    then show ?thesis by simp
  next
    case False
    let ?d = "char_of (of_char (CHR ''0'') + unat (val mod 10))"
    have a: "uint64ToString_loop val ptr = uint64ToString_loop (val div 10) (?d # ptr)"
      using False by simp
    have b: "uint64ToString_loop val [] = uint64ToString_loop (val div 10) [?d]"
      using False by simp
    have c: "uint64ToString_loop (val div 10) (?d # ptr) = uint64ToString_loop (val div 10) [] @ ?d # ptr"
      using less [OF unat_div10_less [OF False]] .
    have d: "uint64ToString_loop (val div 10) [?d] = uint64ToString_loop (val div 10) [] @ [?d]"
      using less [OF unat_div10_less [OF False]] .
    show ?thesis
      by (simp only: a b c d append_assoc append_Cons append_Nil)
  qed
qed

text \<open>snoc characterisation\<close>
lemma uint64ToString_loop_Nil:
  "uint64ToString_loop val [] =
     (if val div 10 \<noteq> 0 then uint64ToString_loop (val div 10) [] else [])
     @ [char_of (of_char (CHR ''0'') + unat (val mod 10))]"
proof (cases "val div 10 = 0")
  case True
  then show ?thesis by simp
next
  case False
  have "uint64ToString_loop val [] =
        uint64ToString_loop (val div 10) [char_of (of_char (CHR ''0'') + unat (val mod 10))]"
    using False by simp
  also have "\<dots> = uint64ToString_loop (val div 10) [] @ [char_of (of_char (CHR ''0'') + unat (val mod 10))]"
    by (rule uint64ToString_loop_append)
  finally show ?thesis using False by simp
qed

lemma uint64ToString_loop_digits: "list_all safeIsDigit (uint64ToString_loop val [])"
proof (induction val rule: measure_induct_rule [where f = unat])
  case (less val)
  show ?case
    by (subst uint64ToString_loop_Nil)
       (simp add: less unat_div10_less safeIsDigit_digit unat_mod10 del: uint64ToString_loop.simps)
qed

lemma uint64ToString_loop_nonempty: "uint64ToString_loop val [] \<noteq> []"
  by (subst uint64ToString_loop_Nil) simp

lemma decimal_value_from_snoc:
  "decimal_value_from acc (s @ [ch]) = decimal_value_from acc s * 10 + digit_value ch"
  by (induction s arbitrary: acc) simp_all

lemma decimal_value_uint64ToString_loop: "decimal_value (uint64ToString_loop val []) = unat val"
proof (induction val rule: measure_induct_rule [where f = unat])
  case (less val)
  have split: "unat val div 10 * 10 + unat val mod 10 = unat val"
    by simp
  show ?case
  proof (cases "val div 10 = 0")
    case True
    then have "unat val div 10 = 0"
      by (simp add: unat_eq_0 [symmetric] unat_div)
    then show ?thesis
      using True split
      by (subst uint64ToString_loop_Nil)
         (simp add: decimal_value_def digit_value_digit unat_mod10 unat_mod del: uint64ToString_loop.simps)
  next
    case False
    have ih: "decimal_value_from 0 (uint64ToString_loop (val div 10) []) = unat val div 10"
      using less [OF unat_div10_less [OF False]] by (simp add: decimal_value_def unat_div)
    show ?thesis
      using False split
      by (subst uint64ToString_loop_Nil)
         (simp add: decimal_value_def decimal_value_from_snoc ih digit_value_digit unat_mod10 unat_mod
               del: uint64ToString_loop.simps)
  qed
qed


lemma of_nat_decimal_value_from:
  "(of_nat (decimal_value_from acc s) :: 64 word) = of_nat acc * 10 ^ length s + of_nat (decimal_value_from 0 s)"
proof (induction s arbitrary: acc)
  case Nil
  then show ?case by simp
next
  case (Cons ch s)
  have "(of_nat (decimal_value_from acc (ch # s)) :: 64 word)
          = of_nat (acc * 10 + digit_value ch) * 10 ^ length s + of_nat (decimal_value_from 0 s)"
    by (simp add: Cons [of "acc * 10 + digit_value ch"])
  moreover have "(of_nat (decimal_value_from 0 (ch # s)) :: 64 word)
          = of_nat (digit_value ch) * 10 ^ length s + of_nat (decimal_value_from 0 s)"
    by (simp add: Cons [of "digit_value ch"])
  ultimately show ?case
    by (simp add: algebra_simps)
qed

lemma stringToUint64_loop_eq:
  "stringToUint64_loop temp s =
     temp * 10 ^ length (takeWhile safeIsDigit s) + of_nat (decimal_value (takeWhile safeIsDigit s))"
proof (induction s arbitrary: temp)
  case Nil
  then show ?case by (simp add: decimal_value_def)
next
  case (Cons ch s)
  show ?case
  proof (cases "safeIsDigit ch")
    case False
    then show ?thesis by (simp add: decimal_value_def)
  next
    case True
    let ?ds = "takeWhile safeIsDigit s"
    have "stringToUint64_loop temp (ch # s)
            = (temp * 10 + of_nat (digit_value ch)) * 10 ^ length ?ds + of_nat (decimal_value ?ds)"
      using True by (simp add: Cons digit_value_def)
    moreover have "(of_nat (decimal_value (ch # ?ds)) :: 64 word)
            = of_nat (digit_value ch) * 10 ^ length ?ds + of_nat (decimal_value ?ds)"
      unfolding decimal_value_def
      by (simp add: of_nat_decimal_value_from [of "digit_value ch"])
    ultimately show ?thesis
      using True by (simp add: algebra_simps)
  qed
qed

lemma stringToUint64_eq:
  "stringToUint64 s = of_nat (decimal_value (takeWhile safeIsDigit s))"
  by (simp add: stringToUint64_def stringToUint64_loop_eq)

lemma takeWhile_digits_stop:
  "list_all safeIsDigit ds \<Longrightarrow> \<not> safeIsDigit ch \<Longrightarrow> takeWhile safeIsDigit (ds @ ch # r) = ds"
  by (induction ds) simp_all

lemma safeStrCpy_terminated:
  "NUL \<notin> set s \<Longrightarrow> safeStrCpy (s @ NUL # r) = s @ [NUL]"
  by (induction s) auto

lemma digits_no_NUL: "list_all safeIsDigit ds \<Longrightarrow> NUL \<notin> set ds"
  by (induction ds) (auto dest: safeIsDigit_not_NUL)

lemma uint64ToString_eq: "uint64ToString val = uint64ToString_loop val [] @ [NUL]"
proof -
  have "uint64ToString val = safeStrCpy (uint64ToString_loop val [] @ [NUL])"
    unfolding uint64ToString_def by (subst uint64ToString_loop_append) (rule refl)
  then show ?thesis
    by (simp add: safeStrCpy_terminated digits_no_NUL uint64ToString_loop_digits
             del: uint64ToString_loop.simps)
qed

lemma stringToUint64_uint64ToString: "stringToUint64 (uint64ToString val) = val"
  by (simp add: uint64ToString_eq stringToUint64_eq takeWhile_digits_stop
        uint64ToString_loop_digits not_safeIsDigit_NUL decimal_value_uint64ToString_loop
        del: uint64ToString_loop.simps)

lemma uint64ToString_loop_hd:
  "(hd (uint64ToString_loop val []) = CHR ''0'') = (val = 0)"
proof (induction val rule: measure_induct_rule [where f = unat])
  case (less val)
  show ?case
  proof (cases "val div 10 = 0")
    case True
    then have small: "unat val div 10 = 0"
      by (simp add: unat_eq_0 [symmetric] unat_div)
    then have m: "unat (val mod 10) = unat val"
      by (simp add: unat_mod)
    have "(char_of (48 + unat val) = CHR ''0'') = (unat val = 0)"
    proof
      assume "char_of (48 + unat val) = CHR ''0''"
      then have "(of_char (char_of (48 + unat val)) :: nat) = of_char (CHR ''0'')"
        by simp
      then show "unat val = 0"
        using small by (simp add: of_char_digit del: of_char_of)
    next
      assume "unat val = 0"
      then show "char_of (48 + unat val) = CHR ''0''"
        by (simp add: char_of_48)
    qed
    then show ?thesis
      using True m by (simp add: unat_eq_0)
  next
    case False
    then have "val \<noteq> 0"
      by auto
    moreover have "hd (uint64ToString_loop val []) = hd (uint64ToString_loop (val div 10) [])"
      using False
      by (subst uint64ToString_loop_Nil)
         (simp add: uint64ToString_loop_nonempty del: uint64ToString_loop.simps)
    ultimately show ?thesis
      using less [OF unat_div10_less [OF False]] False by simp
  qed
qed

section \<open>The log file session: facts\<close>

lemma bindE_Inr [simp]: "bindE (Inr x) f = f x"
  by (simp add: bindE_def)

lemma bindE_Inl [simp]: "bindE (Inl e) f = Inl e"
  by (simp add: bindE_def)

lemma write_EINTR_LOOP_no_fault:
  "faults w = [] \<Longrightarrow> write_EINTR_LOOP w d bytes = sys_write w d bytes"
  by (subst write_EINTR_LOOP.simps)
     (auto simp: sys_write_def EINTR_def EBADF_def split: option.splits)

lemma flushLogFile_ok:
  assumes "session_ok path logFile w"
  shows "flushLogFile logFile w
           = Inr (logFile\<lparr>bufCount := 0\<rparr>, w\<lparr>files := (files w)(path \<mapsto> written path logFile w)\<rparr>)"
proof -
  from assms have f: "faults w = []" and m: "map_of (fdtab w) (fd logFile) = Some path"
    and b: "bufCount logFile \<le> length (buf logFile)"
    by (simp_all add: session_ok_def buf_ok_def)
  show ?thesis
    using f m b
    by (simp add: flushLogFile_def write_EINTR_LOOP_no_fault sys_write_def safeAssert_def written_def
             del: write_EINTR_LOOP.simps)
qed

lemma writeChar_appends:
  assumes "session_ok path logFile w"
  shows "appends path logFile w [ch] (writeChar logFile ch w)"
proof (cases "bufCount logFile = sizeof_buf")
  case True
  from assms have len: "length (buf logFile) = sizeof_buf"
    by (simp add: session_ok_def buf_ok_def)
  have pos: "0 < sizeof_buf"
    by (simp add: sizeof_buf_def)
  have t: "take (Suc 0) ((buf logFile)[0 := ch]) = [ch]"
    using len pos by (cases "buf logFile") simp_all
  show ?thesis
    using assms True len pos t
    by (simp add: writeChar_def flushLogFile_ok [OF assms] appends_def session_ok_def buf_ok_def
          same_surroundings_def written_def)
next
  case False
  from assms have len: "length (buf logFile) = sizeof_buf" and le: "bufCount logFile \<le> sizeof_buf"
    by (simp_all add: session_ok_def buf_ok_def)
  have lt: "bufCount logFile < length (buf logFile)"
    using False len le by simp
  have t: "take (Suc (bufCount logFile)) ((buf logFile)[bufCount logFile := ch])
             = take (bufCount logFile) (buf logFile) @ [ch]"
    using lt by (simp add: take_Suc_conv_app_nth)
  show ?thesis
    using assms False lt t len
    by (simp add: writeChar_def appends_def session_ok_def buf_ok_def
          same_surroundings_def written_def)
qed

lemma appendsI:
  "r = Inr (logFile', w') \<Longrightarrow> session_ok path logFile' w' \<Longrightarrow> same_surroundings path w w'
     \<Longrightarrow> written path logFile' w' = written path logFile w @ bs
     \<Longrightarrow> appends path logFile w bs r"
  by (simp add: appends_def)

lemma appendsE:
  assumes "appends path logFile w bs r"
  obtains logFile' w' where "r = Inr (logFile', w')" and "session_ok path logFile' w'"
    and "same_surroundings path w w'" and "written path logFile' w' = written path logFile w @ bs"
  using assms by (auto simp: appends_def split: sum.splits)

lemma same_surroundings_refl: "same_surroundings path w w"
  by (simp add: same_surroundings_def)

lemma same_surroundings_trans:
  "same_surroundings path w w1 \<Longrightarrow> same_surroundings path w1 w2 \<Longrightarrow> same_surroundings path w w2"
  by (simp add: same_surroundings_def)

lemma same_surroundings_files:
  "same_surroundings path w w' \<Longrightarrow> q \<noteq> path \<Longrightarrow> files w' q = files w q"
  by (auto simp: same_surroundings_def dest: fun_cong [where x = q])

lemma appends_Nil: "session_ok path logFile w \<Longrightarrow> appends path logFile w [] (Inr (logFile, w))"
  by (simp add: appends_def same_surroundings_refl)

lemma appends_bindE:
  assumes m_ok: "appends path logFile w bs1 m"
    and f_ok: "\<And>logFile1 w1. session_ok path logFile1 w1 \<Longrightarrow> same_surroundings path w w1
                 \<Longrightarrow> appends path logFile1 w1 bs2 (f (logFile1, w1))"
  shows "appends path logFile w (bs1 @ bs2) (bindE m f)"
proof -
  from m_ok obtain logFile1 w1 where m: "m = Inr (logFile1, w1)" and ok1: "session_ok path logFile1 w1"
    and same1: "same_surroundings path w w1"
    and wr1: "written path logFile1 w1 = written path logFile w @ bs1"
    by (rule appendsE)
  from f_ok [OF ok1 same1] obtain logFile2 w2 where r: "f (logFile1, w1) = Inr (logFile2, w2)"
    and ok2: "session_ok path logFile2 w2" and same2: "same_surroundings path w1 w2"
    and wr2: "written path logFile2 w2 = written path logFile1 w1 @ bs2"
    by (rule appendsE)
  show ?thesis
  proof (rule appendsI)
    show "bindE m f = Inr (logFile2, w2)"
      by (simp add: m r)
    show "session_ok path logFile2 w2"
      by (rule ok2)
    show "same_surroundings path w w2"
      by (rule same_surroundings_trans [OF same1 same2])
    show "written path logFile2 w2 = written path logFile w @ bs1 @ bs2"
      by (simp add: wr2 wr1)
  qed
qed

lemma appends_case:
  assumes m_ok: "appends path logFile w bs1 m"
    and f_ok: "\<And>logFile1 w1. session_ok path logFile1 w1 \<Longrightarrow> same_surroundings path w w1
                 \<Longrightarrow> appends path logFile1 w1 bs2 (f logFile1 w1)"
  shows "appends path logFile w (bs1 @ bs2)
           (case m of Inl e \<Rightarrow> Inl e | Inr (logFile1, w1) \<Rightarrow> f logFile1 w1)"
proof -
  have "appends path logFile w (bs1 @ bs2) (bindE m (\<lambda>(logFile1, w1). f logFile1 w1))"
    by (rule appends_bindE [OF m_ok]) (simp add: f_ok)
  then show ?thesis
    by (simp add: bindE_def)
qed

lemma writeString_appends:
  "session_ok path logFile w \<Longrightarrow> appends path logFile w (cstr str) (writeString logFile str w)"
proof (induction str arbitrary: logFile w)
  case Nil
  then show ?case by (simp add: appends_Nil)
next
  case (Cons ch str)
  show ?case
  proof (cases "ch = NUL")
    case True
    then show ?thesis using Cons.prems by (simp add: appends_Nil)
  next
    case False
    have "appends path logFile w ([ch] @ cstr str)
            (case writeChar logFile ch w of Inl e \<Rightarrow> Inl e
             | Inr (logFile', w') \<Rightarrow> writeString logFile' str w')"
      by (rule appends_case [OF writeChar_appends [OF Cons.prems]]) (rule Cons.IH)
    then show ?thesis using False by simp
  qed
qed

lemma safeStrChr_iff:
  "c \<noteq> NUL \<Longrightarrow> (safeStrChr s c \<noteq> None) = (c \<in> set (cstr s))"
  by (induction s) auto

lemma writeEscapedString_loop_appends:
  "session_ok path logFile w
     \<Longrightarrow> appends path logFile w (spec_escape (cstr str)) (writeEscapedString_loop logFile str w)"
proof (induction str arbitrary: logFile w)
  case Nil
  then show ?case by (simp add: appends_Nil)
next
  case (Cons ch str)
  show ?case
  proof (cases "ch = NUL")
    case True
    then show ?thesis using Cons.prems by (simp add: appends_Nil)
  next
    case False
    have rest: "appends path logFile1 w1 ([ch] @ spec_escape (cstr str))
                 (case writeChar logFile1 ch w1 of Inl e \<Rightarrow> Inl e
                  | Inr (logFile2, w2) \<Rightarrow> writeEscapedString_loop logFile2 str w2)"
      if "session_ok path logFile1 w1" for logFile1 w1
      by (rule appends_case [OF writeChar_appends [OF that]]) (rule Cons.IH)
    show ?thesis
    proof (cases "ch = CHR 0x5C \<or> ch = CHR 0x22")
      case True
      have "appends path logFile w ([CHR 0x5C] @ [ch] @ spec_escape (cstr str))
              (case writeChar logFile (CHR 0x5C) w of
                 Inl e \<Rightarrow> Inl e
               | Inr (logFile1, w1) \<Rightarrow>
                   (case writeChar logFile1 ch w1 of Inl e \<Rightarrow> Inl e
                    | Inr (logFile2, w2) \<Rightarrow> writeEscapedString_loop logFile2 str w2))"
        by (rule appends_case [OF writeChar_appends [OF Cons.prems]]) (rule rest)
      then show ?thesis
        using \<open>ch \<noteq> NUL\<close> True by simp
    next
      case False
      then show ?thesis
        using \<open>ch \<noteq> NUL\<close> rest [OF Cons.prems] by simp
    qed
  qed
qed

lemma writeEscapedString_appends:
  assumes "session_ok path logFile w"
  shows "appends path logFile w (spec_field (cstr str)) (writeEscapedString logFile str w)"
proof -
  let ?q = "CHR '' '' \<in> set (cstr str) \<or> CHR 0x0A \<in> set (cstr str)"
  have nq: "(safeStrChr str (CHR '' '') \<noteq> None \<or> safeStrChr str (CHR 0x0A) \<noteq> None) = ?q"
  proof -
    have sp: "CHR '' '' \<noteq> NUL" and nl: "CHR 0x0A \<noteq> NUL"
      by (simp_all add: NUL_def)
    show ?thesis
      by (simp only: safeStrChr_iff [OF sp] safeStrChr_iff [OF nl])
  qed
  have open_q: "appends path logFile w (if ?q then [CHR 0x22] else [])
                 (if ?q then writeChar logFile (CHR 0x22) w else Inr (logFile, w))"
    using assms by (simp add: writeChar_appends appends_Nil)
  have close_q: "appends path logFile2 w2 (if ?q then [CHR 0x22] else [])
                 (if ?q then writeChar logFile2 (CHR 0x22) w2 else Inr (logFile2, w2))"
    if "session_ok path logFile2 w2" for logFile2 w2
    using that by (simp add: writeChar_appends appends_Nil)
  have body: "appends path logFile1 w1 (spec_escape (cstr str) @ (if ?q then [CHR 0x22] else []))
                (bindE (writeEscapedString_loop logFile1 str w1) (\<lambda>(logFile2, w2).
                   if ?q then writeChar logFile2 (CHR 0x22) w2 else Inr (logFile2, w2)))"
    if "session_ok path logFile1 w1" for logFile1 w1
    by (rule appends_bindE [OF writeEscapedString_loop_appends [OF that]]) (simp add: close_q)
  have "appends path logFile w
          ((if ?q then [CHR 0x22] else []) @ spec_escape (cstr str) @ (if ?q then [CHR 0x22] else []))
          (bindE (if ?q then writeChar logFile (CHR 0x22) w else Inr (logFile, w))
             (\<lambda>(logFile1, w1).
                bindE (writeEscapedString_loop logFile1 str w1) (\<lambda>(logFile2, w2).
                   if ?q then writeChar logFile2 (CHR 0x22) w2 else Inr (logFile2, w2))))"
    by (rule appends_bindE [OF open_q]) (simp add: body)
  moreover have "spec_field (cstr str)
      = (if ?q then [CHR 0x22] else []) @ spec_escape (cstr str) @ (if ?q then [CHR 0x22] else [])"
    by (simp add: spec_field_def)
  ultimately show ?thesis
    unfolding writeEscapedString_def Let_def nq by simp
qed

lemma safeStrLen_cstr: "safeStrLen s = length (cstr s)"
  by (induction s) auto

lemma safeStrCpy_cstr: "safeStrCpy s = cstr s @ [NUL]"
  by (induction s) auto

lemma cstr_no_NUL: "NUL \<notin> set (cstr s)"
  by (induction s) auto

lemma cstr_id: "NUL \<notin> set s \<Longrightarrow> cstr s = s"
  by (induction s) auto

lemma cstr_append_NUL: "NUL \<notin> set s \<Longrightarrow> cstr (s @ NUL # r) = s"
  by (induction s) auto

lemma cstr_uint64ToString: "cstr (uint64ToString n) = uint64ToString_loop n []"
proof -
  have "NUL \<notin> set (uint64ToString_loop n [])"
    by (rule digits_no_NUL [OF uint64ToString_loop_digits])
  then have "cstr (uint64ToString_loop n [] @ [NUL]) = uint64ToString_loop n []"
    by (rule cstr_append_NUL)
  then show ?thesis
    by (simp only: uint64ToString_eq)
qed

lemma strListCat_loop_Some:
  "strListCat_loop below here (Some part # parts) = strListCat_loop (below @ cstr part) [NUL] parts"
  by (simp add: safeStrLen_cstr safeStrCpy_cstr)

lemma procStatPath_no_NUL: "NUL \<notin> set (procStatPath p)"
  by (simp add: procStatPath_def cstr_no_NUL) (simp add: NUL_def)

lemma strListCat_procStatPath:
  "strListCat [Some ''/proc/'', Some (uint64ToString (ucast p)), Some ''/stat'', None]
     = Inr (procStatPath p @ [NUL])"
proof -
  show ?thesis
    unfolding strListCat_def strListCat_loop_Some
    by (simp add: procStatPath_def NUL_def)
qed

lemma cstr_procStatPath: "cstr (procStatPath p @ [NUL]) = procStatPath p"
  by (rule cstr_append_NUL [OF procStatPath_no_NUL])

lemma fresh_fd_above: "(d, q) \<in> set tab \<Longrightarrow> d < fresh_fd tab"
  by (induction tab) auto

lemma fresh_fd_ge: "3 \<le> fresh_fd tab"
  by (induction tab) auto

lemma map_of_fresh_fd: "map_of tab d = Some q \<Longrightarrow> fresh_fd tab \<noteq> d"
  by (auto dest!: map_of_SomeD fresh_fd_above)

lemma sys_open_read_ok:
  assumes ok: "session_ok path logFile w" and f: "files w (cstr name) = Some content"
  shows "\<exists>w'. sys_open w name False = (fresh_fd (fdtab w), w')
           \<and> session_ok path logFile w' \<and> same_surroundings path w w'
           \<and> written path logFile w' = written path logFile w
           \<and> sys_read w' (fresh_fd (fdtab w)) n = (int (length (take n content)), take n content, w')"
proof -
  from ok have nf: "faults w = []" and m: "map_of (fdtab w) (fd logFile) = Some path"
    and b: "buf_ok logFile"
    by (simp_all add: session_ok_def)
  let ?w' = "w\<lparr>fdtab := (fresh_fd (fdtab w), cstr name) # fdtab w\<rparr>"
  have "sys_open w name False = (fresh_fd (fdtab w), ?w')"
    using nf f by (simp add: sys_open_def)
  moreover have "session_ok path logFile ?w'"
    using nf m b map_of_fresh_fd [OF m] by (simp add: session_ok_def)
  moreover have "same_surroundings path w ?w'"
    by (simp add: same_surroundings_def)
  moreover have "written path logFile ?w' = written path logFile w"
    by (simp add: written_def)
  moreover have "sys_read ?w' (fresh_fd (fdtab w)) n = (int (length (take n content)), take n content, ?w')"
    using nf f by (simp add: sys_read_def Let_def)
  ultimately show ?thesis
    by blast
qed

lemma appends_from:
  assumes "appends path logFile w' bs r" and "same_surroundings path w w'"
    and "written path logFile w' = written path logFile w"
  shows "appends path logFile w bs r"
proof -
  from assms(1) obtain logFile2 w2 where "r = Inr (logFile2, w2)" and "session_ok path logFile2 w2"
    and "same_surroundings path w' w2" and "written path logFile2 w2 = written path logFile w' @ bs"
    by (rule appendsE)
  then show ?thesis
    using assms(2,3) by (auto intro!: appendsI elim: same_surroundings_trans)
qed

lemma writePid_appends:
  assumes ok: "session_ok path logFile w"
    and stat: "files w (procStatPath p) = Some content"
    and ne: "procStatPath p \<noteq> path"
    and st: "writePid_startTime g (take 1023 content) = Inr startTime"
  shows "appends path logFile w
           (cstr (uint64ToString (ucast p)) @ [CHR 0x0A] @ cstr startTime @ [CHR 0x0A])
           (writePid g logFile p w)"
proof -
  let ?pidString = "uint64ToString (ucast p :: 64 word)"
  let ?tail = "\<lambda>(logFile2, w2).
         bindE (strListCat [Some ''/proc/'', Some ?pidString, Some ''/stat'', None]) (\<lambda>procStatPath.
         let (statFd, w3) = sys_open w2 procStatPath False
         in if statFd = -1
            then Inl (writeError_abort [Some ''libbtrace.so: Error opening '', Some procStatPath, None])
            else
              let (amt, data, w4) = sys_read w3 statFd (1024 - 1)
              in bindE (safeAssert (0 \<le> amt) ''Error reading /proc/<pid>/stat'') (\<lambda>_.
                 bindE (writePid_startTime g data) (\<lambda>startTime.
                 bindE (writeString logFile2 startTime w4) (\<lambda>(logFile5, w5).
                 writeChar logFile5 (CHR 0x0A) w5))))"
  have tail: "appends path logFile2 w2 (cstr startTime @ [CHR 0x0A]) (?tail (logFile2, w2))"
    if ok2: "session_ok path logFile2 w2" and same2: "same_surroundings path w w2"
    for logFile2 w2
  proof -
    have "files w2 (cstr (procStatPath p @ [NUL])) = Some content"
      using same_surroundings_files [OF same2 ne] stat by (simp add: cstr_procStatPath)
    from sys_open_read_ok [OF ok2 this, of 1023]
    obtain w3 where op: "sys_open w2 (procStatPath p @ [NUL]) False = (fresh_fd (fdtab w2), w3)"
      and ok3: "session_ok path logFile2 w3" and same3: "same_surroundings path w2 w3"
      and wr3: "written path logFile2 w3 = written path logFile2 w2"
      and rd: "sys_read w3 (fresh_fd (fdtab w2)) 1023
                 = (int (length (take 1023 content)), take 1023 content, w3)"
      by blast
    have fresh: "fresh_fd (fdtab w2) \<noteq> -1"
      using fresh_fd_ge [of "fdtab w2"] by simp
    have eq: "?tail (logFile2, w2)
          = bindE (writeString logFile2 startTime w3) (\<lambda>(logFile5, w5). writeChar logFile5 (CHR 0x0A) w5)"
      by (simp add: strListCat_procStatPath op fresh rd safeAssert_def st)
    have "appends path logFile2 w3 (cstr startTime @ [CHR 0x0A])
            (bindE (writeString logFile2 startTime w3) (\<lambda>(logFile5, w5). writeChar logFile5 (CHR 0x0A) w5))"
      by (rule appends_bindE [OF writeString_appends [OF ok3]]) (simp add: writeChar_appends)
    then show ?thesis
      unfolding eq by (rule appends_from [OF _ same3 wr3])
  qed
  have mid: "appends path logFile1 w1 ([CHR 0x0A] @ cstr startTime @ [CHR 0x0A])
               ((\<lambda>(logFile1, w1). bindE (writeChar logFile1 (CHR 0x0A) w1) ?tail) (logFile1, w1))"
    if ok1: "session_ok path logFile1 w1" and same1: "same_surroundings path w w1"
    for logFile1 w1
    unfolding prod.case
    by (rule appends_bindE [OF writeChar_appends [OF ok1]])
       (rule tail, assumption, rule same_surroundings_trans [OF same1])
  have "appends path logFile w (cstr ?pidString @ [CHR 0x0A] @ cstr startTime @ [CHR 0x0A])
          (bindE (writeString logFile ?pidString w) (\<lambda>(logFile1, w1).
             bindE (writeChar logFile1 (CHR 0x0A) w1) ?tail))"
    by (rule appends_bindE [OF writeString_appends [OF ok]]) (rule mid)
  then show ?thesis
    by (simp add: writePid_def Let_def)
qed

lemma appends_bindE_rel:
  assumes same0: "same_surroundings path w0 w"
    and m_ok: "appends path logFile w bs1 m"
    and f_ok: "\<And>logFile1 w1. session_ok path logFile1 w1 \<Longrightarrow> same_surroundings path w0 w1
                 \<Longrightarrow> appends path logFile1 w1 bs2 (f (logFile1, w1))"
  shows "appends path logFile w (bs1 @ bs2) (bindE m f)"
  by (rule appends_bindE [OF m_ok]) (rule f_ok, assumption, rule same_surroundings_trans [OF same0])

lemma cstr_append_NUL_any: "cstr (s @ NUL # r) = cstr s"
  by (induction s) auto

lemma size_t_of_int: "n < 2 ^ 64 \<Longrightarrow> size_t_of (int n) = n"
proof -
  assume "n < 2 ^ 64"
  then have "int n < 2 ^ 64"
    by (metis of_nat_less_iff of_nat_numeral of_nat_power)
  then show ?thesis
    by (simp add: size_t_of_def)
qed

lemma sys_readlink_ok:
  "faults w = [] \<Longrightarrow> links w (cstr name) = Some target \<Longrightarrow> 0 < n
     \<Longrightarrow> sys_readlink w name n = (int (min (length target) n), take n target, w)"
  by (simp add: sys_readlink_def)

lemma attemptWriteSymLinkTarget_fits:
  assumes ok: "session_ok path logFile w" and l: "links w (cstr name) = Some target"
    and fit: "length target < n" and n: "n \<le> 2 ^ 20"
  shows "\<exists>logFile' w'. attemptWriteSymLinkTarget logFile name n w = Inr (True, logFile', w')
           \<and> appends path logFile w (spec_field (cstr target) @ [CHR 0x0A]) (Inr (logFile', w'))"
proof -
  from ok have nf: "faults w = []"
    by (simp add: session_ok_def)
  have rl: "sys_readlink w name n = (int (length target), target, w)"
    using sys_readlink_ok [OF nf l, of n] fit by simp
  have "length target < 2 ^ 64"
    using fit n by simp
  then have sz: "size_t_of (int (length target)) = length target"
    by (rule size_t_of_int)
  have "appends path logFile w (spec_field (cstr (target @ [NUL])) @ [CHR 0x0A])
          (bindE (writeEscapedString logFile (target @ [NUL]) w)
             (\<lambda>(logFile2, w2). writeChar logFile2 (CHR 0x0A) w2))"
    by (rule appends_bindE [OF writeEscapedString_appends [OF ok]]) (simp add: writeChar_appends)
  then have ap: "appends path logFile w (spec_field (cstr target) @ [CHR 0x0A])
          (bindE (writeEscapedString logFile (target @ [NUL]) w)
             (\<lambda>(logFile2, w2). writeChar logFile2 (CHR 0x0A) w2))"
    by (simp only: cstr_append_NUL_any)
  then obtain logFile3 w3 where
    r: "bindE (writeEscapedString logFile (target @ [NUL]) w)
          (\<lambda>(logFile2, w2). writeChar logFile2 (CHR 0x0A) w2) = Inr (logFile3, w3)"
    by (rule appendsE)
  have "attemptWriteSymLinkTarget logFile name n w = Inr (True, logFile3, w3)"
    using r fit
    by (auto simp: attemptWriteSymLinkTarget_def rl sz bindE_def split: sum.splits)
  then show ?thesis
    using ap r by auto
qed

lemma attemptWriteSymLinkTarget_too_long:
  assumes nf: "faults w = []" and l: "links w (cstr name) = Some target"
    and long: "n \<le> length target" and pos: "0 < n" and n: "n \<le> 2 ^ 20"
  shows "attemptWriteSymLinkTarget logFile name n w = Inr (False, logFile, w)"
proof -
  have rl: "sys_readlink w name n = (int n, take n target, w)"
    using sys_readlink_ok [OF nf l pos] long by (simp add: min_def)
  have "n < 2 ^ 64"
    using n by simp
  then have sz: "size_t_of (int n) = n"
    by (rule size_t_of_int)
  show ?thesis
    by (simp add: attemptWriteSymLinkTarget_def rl sz safeAssert_def)
qed

lemma writeSymLinkTarget_loop_succeeds:
  assumes ok: "session_ok path logFile w" and l: "links w (cstr name) = Some target"
    and short: "length target < 2 ^ 19"
  shows "j \<le> 19 \<Longrightarrow> \<exists>logFile' w'. writeSymLinkTarget_loop logFile name (2 ^ j) w = Inr (True, logFile', w')
           \<and> appends path logFile w (spec_field (cstr target) @ [CHR 0x0A]) (Inr (logFile', w'))"
proof (induction "19 - j" arbitrary: j)
  case 0
  then have j: "j = 19"
    by simp
  have "(2::nat) ^ 19 \<le> 2 ^ 20"
    by simp
  from attemptWriteSymLinkTarget_fits [OF ok l short this]
  show ?case
    unfolding j by (subst writeSymLinkTarget_loop.simps) auto
next
  case (Suc k)
  then have j: "j < 19"
    by simp
  then have le: "(2::nat) ^ j \<le> 2 ^ 20"
    by (intro power_increasing) simp_all
  have lt: "(2::nat) ^ j < 1024 * 1024"
  proof -
    have "(2::nat) ^ j < 2 ^ 20"
      using j by (intro power_strict_increasing) simp_all
    then show ?thesis by simp
  qed
  show ?case
  proof (cases "length target < 2 ^ j")
    case True
    from attemptWriteSymLinkTarget_fits [OF ok l True le] lt
    show ?thesis
      by (subst writeSymLinkTarget_loop.simps) auto
  next
    case False
    then have long: "2 ^ j \<le> length target"
      by simp
    have nf: "faults w = []"
      using ok by (simp add: session_ok_def)
    have at: "attemptWriteSymLinkTarget logFile name (2 ^ j) w = Inr (False, logFile, w)"
      by (rule attemptWriteSymLinkTarget_too_long [OF nf l long _ le]) simp
    have "k = 19 - Suc j" and "Suc j \<le> 19"
      using Suc.hyps(2) j by simp_all
    from Suc.hyps(1) [OF this]
    show ?thesis
      using lt by (subst writeSymLinkTarget_loop.simps) (simp add: at mult.commute)
  qed
qed

lemma writeSymLinkTarget_loop_fails:
  assumes nf: "faults w = []" and l: "links w (cstr name) = Some target"
    and long: "2 ^ 19 \<le> length target"
  shows "j \<le> 20 \<Longrightarrow> writeSymLinkTarget_loop logFile name (2 ^ j) w = Inr (False, logFile, w)"
proof (induction "20 - j" arbitrary: j)
  case 0
  then have j: "j = 20"
    by simp
  show ?case
    unfolding j by (subst writeSymLinkTarget_loop.simps) simp
next
  case (Suc k)
  then have j: "j < 20"
    by simp
  then have j19: "j \<le> 19"
    by simp
  have le: "(2::nat) ^ j \<le> 2 ^ 20"
    using j by (intro power_increasing) simp_all
  have lt: "(2::nat) ^ j < 1024 * 1024"
  proof -
    have "(2::nat) ^ j < 2 ^ 20"
      using j by (intro power_strict_increasing) simp_all
    then show ?thesis by simp
  qed
  have "(2::nat) ^ j \<le> 2 ^ 19"
    using j19 by (intro power_increasing) simp_all
  then have tl: "2 ^ j \<le> length target"
    using long by (rule order_trans)
  have at: "attemptWriteSymLinkTarget logFile name (2 ^ j) w = Inr (False, logFile, w)"
    by (rule attemptWriteSymLinkTarget_too_long [OF nf l tl _ le]) simp
  have "k = 20 - Suc j" and "Suc j \<le> 20"
    using Suc.hyps(2) j by simp_all
  from Suc.hyps(1) [OF this]
  show ?case
    using lt by (subst writeSymLinkTarget_loop.simps) (simp add: at mult.commute)
qed

lemma writeSymLinkTarget_appends:
  assumes ok: "session_ok path logFile w" and l: "links w (cstr name) = Some target"
    and short: "length target < 2 ^ 19"
  shows "appends path logFile w (spec_field (cstr target) @ [CHR 0x0A])
           (writeSymLinkTarget logFile name w)"
proof -
  from writeSymLinkTarget_loop_succeeds [OF ok l short, of 8, simplified]
  show ?thesis
    by (auto simp: writeSymLinkTarget_def)
qed

lemma writeError_abort_unterminated:
  "writeError_abort [Some a, Some b] = UndefinedBehaviour"
  by (simp add: writeError_abort_def writeError_def strListLen_def)

lemma writeSymLinkTarget_fails:
  assumes nf: "faults w = []" and l: "links w (cstr name) = Some target"
    and long: "2 ^ 19 \<le> length target"
  shows "writeSymLinkTarget logFile name w = Inl UndefinedBehaviour"
proof -
  from writeSymLinkTarget_loop_fails [OF nf l long, of 8 logFile, simplified]
  show ?thesis
    by (simp add: writeSymLinkTarget_def writeError_abort_unterminated)
qed

lemma logExecution_args_appends:
  "session_ok path logFile w
     \<Longrightarrow> appends path logFile w
           ((if 0 < i \<and> args \<noteq> [] then [CHR '' ''] else []) @ spec_arg_line (map cstr args))
           (logExecution_args i logFile (map Some args @ None # rest) w)"
proof (induction args arbitrary: i logFile w)
  case Nil
  then show ?case by (simp add: appends_Nil hiddenNull_def)
next
  case (Cons a args)
  have sep: "appends path logFile w (if 0 < i then [CHR '' ''] else [])
               (if 0 < i then writeChar logFile (CHR '' '') w else Inr (logFile, w))"
    using Cons.prems by (simp add: writeChar_appends appends_Nil)
  have rest: "appends path logFile1 w1
                (spec_field (cstr a) @ (if args \<noteq> [] then [CHR '' ''] else []) @ spec_arg_line (map cstr args))
                (case writeEscapedString logFile1 (the (Some a)) w1 of
                   Inl e \<Rightarrow> Inl e
                 | Inr (logFile2, w2) \<Rightarrow> logExecution_args (i + 1) logFile2 (map Some args @ None # rest) w2)"
    if ok1: "session_ok path logFile1 w1" for logFile1 w1
  proof -
    have "appends path logFile2 w2
            ((if 0 < i + 1 \<and> args \<noteq> [] then [CHR '' ''] else []) @ spec_arg_line (map cstr args))
            (logExecution_args (i + 1) logFile2 (map Some args @ None # rest) w2)"
      if "session_ok path logFile2 w2" for logFile2 w2
      using that by (rule Cons.IH)
    then have ih: "appends path logFile2 w2
            ((if args \<noteq> [] then [CHR '' ''] else []) @ spec_arg_line (map cstr args))
            (logExecution_args (i + 1) logFile2 (map Some args @ None # rest) w2)"
      if "session_ok path logFile2 w2" for logFile2 w2
      using that by simp
    show ?thesis
      unfolding option.sel
      by (rule appends_case [OF writeEscapedString_appends [OF ok1]]) (rule ih)
  qed
  have all: "appends path logFile w
          ((if 0 < i then [CHR '' ''] else []) @ spec_field (cstr a)
             @ (if args \<noteq> [] then [CHR '' ''] else []) @ spec_arg_line (map cstr args))
          (case (if 0 < i then writeChar logFile (CHR '' '') w else Inr (logFile, w)) of
             Inl e \<Rightarrow> Inl e
           | Inr (logFile1, w1) \<Rightarrow>
               (case writeEscapedString logFile1 (the (Some a)) w1 of
                  Inl e \<Rightarrow> Inl e
                | Inr (logFile2, w2) \<Rightarrow> logExecution_args (i + 1) logFile2 (map Some args @ None # rest) w2))"
    by (rule appends_case [OF sep]) (rule rest)
  have line: "spec_arg_line (map cstr (a # args))
      = spec_field (cstr a) @ (if args \<noteq> [] then [CHR '' ''] else []) @ spec_arg_line (map cstr args)"
    by (cases args) simp_all
  have bytes: "(if 0 < i \<and> a # args \<noteq> [] then [CHR '' ''] else []) @ spec_arg_line (map cstr (a # args))
      = (if 0 < i then [CHR '' ''] else []) @ spec_field (cstr a)
          @ (if args \<noteq> [] then [CHR '' ''] else []) @ spec_arg_line (map cstr args)"
    using line by simp
  have code: "logExecution_args i logFile (map Some (a # args) @ None # rest) w
      = (case (if 0 < i then writeChar logFile (CHR '' '') w else Inr (logFile, w)) of
           Inl e \<Rightarrow> Inl e
         | Inr (logFile1, w1) \<Rightarrow>
             (case writeEscapedString logFile1 (the (Some a)) w1 of
                Inl e \<Rightarrow> Inl e
              | Inr (logFile2, w2) \<Rightarrow> logExecution_args (i + 1) logFile2 (map Some args @ None # rest) w2))"
    by (simp add: hiddenNull_def)
  show ?case
    unfolding bytes code by (rule all)
qed

lemma open_EINTR_LOOP_no_fault:
  "faults w = [] \<Longrightarrow> open_EINTR_LOOP w name = sys_open w name True"
  using fresh_fd_ge [of "fdtab w"]
  by (subst open_EINTR_LOOP.simps) (auto simp: sys_open_def split: option.splits)

lemma fcntl_EINTR_LOOP_no_fault:
  "faults w = [] \<Longrightarrow> fcntl_EINTR_LOOP w d = sys_fcntl_lock w d True"
  by (subst fcntl_EINTR_LOOP.simps)
     (auto simp: sys_fcntl_lock_def EINTR_def EBADF_def split: option.splits)

lemma buf_ok_uninitialised: "buf_ok (uninitialised_LogFile\<lparr>fd := d, bufCount := 0\<rparr>)"
  by (simp add: buf_ok_def uninitialised_LogFile_def)

lemma openLogFile_ok:
  assumes nf: "faults w = []"
  shows "\<exists>logFile0 w0. openLogFile uninitialised_LogFile name w = Inr (logFile0, w0)
           \<and> session_ok (cstr name) logFile0 w0 \<and> same_surroundings (cstr name) w w0
           \<and> written (cstr name) logFile0 w0 = (case files w (cstr name) of None \<Rightarrow> [] | Some c \<Rightarrow> c)"
proof -
  let ?d = "fresh_fd (fdtab w)"
  let ?w1 = "w\<lparr>errno := 0\<rparr>"
  let ?lf = "uninitialised_LogFile\<lparr>fd := ?d, bufCount := 0\<rparr>"
  have d: "?d \<noteq> -1"
    using fresh_fd_ge [of "fdtab w"] by simp
  show ?thesis
  proof (cases "files w (cstr name)")
    case None
    let ?w2 = "?w1\<lparr>files := (files w)(cstr name \<mapsto> []), fdtab := (?d, cstr name) # fdtab w\<rparr>"
    let ?w3 = "?w2\<lparr>locks := cstr name # locks w\<rparr>"
    have o: "open_EINTR_LOOP ?w1 name = (?d, ?w2)"
      using nf None by (simp add: open_EINTR_LOOP_no_fault sys_open_def)
    have l: "fcntl_EINTR_LOOP ?w2 ?d = (0, ?w3)"
      using nf by (simp add: fcntl_EINTR_LOOP_no_fault sys_fcntl_lock_def)
    have r: "openLogFile uninitialised_LogFile name w = Inr (?lf, ?w3)"
      using d by (simp add: openLogFile_def Let_def o l safeAssert_def)
    have "session_ok (cstr name) ?lf ?w3"
      using nf by (simp add: session_ok_def buf_ok_uninitialised)
    moreover have "same_surroundings (cstr name) w ?w3"
      by (simp add: same_surroundings_def)
    moreover have "written (cstr name) ?lf ?w3 = []"
      by (simp add: written_def)
    ultimately show ?thesis
      using r None by simp
  next
    case (Some c)
    let ?w2 = "?w1\<lparr>fdtab := (?d, cstr name) # fdtab w\<rparr>"
    let ?w3 = "?w2\<lparr>locks := cstr name # locks w\<rparr>"
    have o: "open_EINTR_LOOP ?w1 name = (?d, ?w2)"
      using nf Some by (simp add: open_EINTR_LOOP_no_fault sys_open_def)
    have l: "fcntl_EINTR_LOOP ?w2 ?d = (0, ?w3)"
      using nf by (simp add: fcntl_EINTR_LOOP_no_fault sys_fcntl_lock_def)
    have r: "openLogFile uninitialised_LogFile name w = Inr (?lf, ?w3)"
      using d by (simp add: openLogFile_def Let_def o l safeAssert_def)
    have "session_ok (cstr name) ?lf ?w3"
      using nf by (simp add: session_ok_def buf_ok_uninitialised)
    moreover have "same_surroundings (cstr name) w ?w3"
      by (simp add: same_surroundings_def)
    moreover have "written (cstr name) ?lf ?w3 = c"
      using Some by (simp add: written_def)
    ultimately show ?thesis
      using r Some by simp
  qed
qed

lemma closeLogFile_ok:
  assumes ok: "session_ok path logFile w"
  shows "\<exists>w'. closeLogFile logFile w = Inr w' \<and> files w' path = Some (written path logFile w)
           \<and> same_surroundings path w w'"
proof -
  from ok have nf: "faults w = []" and m: "map_of (fdtab w) (fd logFile) = Some path"
    by (simp_all add: session_ok_def)
  let ?w1 = "w\<lparr>files := (files w)(path \<mapsto> written path logFile w)\<rparr>"
  let ?w2 = "?w1\<lparr>locks := removeAll path (locks w)\<rparr>"
  have u: "sys_fcntl_lock ?w1 (fd logFile) False = (0, ?w2)"
    using nf m by (simp add: sys_fcntl_lock_def)
  have r: "closeLogFile logFile w = Inr (sys_close ?w2 (fd logFile))"
    by (simp add: closeLogFile_def flushLogFile_ok [OF ok] u safeAssert_def)
  show ?thesis
    unfolding r by (simp add: sys_close_def same_surroundings_def)
qed

lemma finishes_closeLogFile:
  assumes "session_ok path logFile w" and "same_surroundings path w0 w"
  shows "finishes path w0 logFile w [] (closeLogFile logFile w)"
proof -
  from closeLogFile_ok [OF assms(1)] obtain w' where "closeLogFile logFile w = Inr w'"
    and "files w' path = Some (written path logFile w)" and "same_surroundings path w w'"
    by blast
  then show ?thesis
    using assms(2) by (auto simp: finishes_def elim: same_surroundings_trans)
qed

lemma finishes_bindE:
  assumes same0: "same_surroundings path w0 w"
    and m_ok: "appends path logFile w bs1 m"
    and f_ok: "\<And>logFile1 w1. session_ok path logFile1 w1 \<Longrightarrow> same_surroundings path w0 w1
                 \<Longrightarrow> finishes path w0 logFile1 w1 bs2 (f (logFile1, w1))"
  shows "finishes path w0 logFile w (bs1 @ bs2) (bindE m f)"
proof -
  from m_ok obtain logFile1 w1 where m: "m = Inr (logFile1, w1)" and ok1: "session_ok path logFile1 w1"
    and same1: "same_surroundings path w w1"
    and wr1: "written path logFile1 w1 = written path logFile w @ bs1"
    by (rule appendsE)
  have "finishes path w0 logFile1 w1 bs2 (f (logFile1, w1))"
    by (rule f_ok [OF ok1 same_surroundings_trans [OF same0 same1]])
  then show ?thesis
    by (cases "f (logFile1, w1)") (simp_all add: finishes_def m wr1)
qed

lemma g_logFileName_empty:
  "(case name of [] \<Rightarrow> True | ch # _ \<Rightarrow> ch = NUL) = (cstr name = [])"
  by (cases name) auto

lemma logExecution_writes_record:
  assumes name: "cstr (g_logFileName g) \<noteq> []"
    and nf: "faults w = []"
    and pstat: "files w (procStatPath (ppid w)) = Some pcontent"
    and pne: "procStatPath (ppid w) \<noteq> cstr (g_logFileName g)"
    and pstart: "writePid_startTime g (take 1023 pcontent) = Inr pstart"
    and sstat: "files w (procStatPath (pid w)) = Some scontent"
    and sne: "procStatPath (pid w) \<noteq> cstr (g_logFileName g)"
    and sstart: "writePid_startTime g (take 1023 scontent) = Inr sstart"
    and cwd: "links w ''/proc/self/cwd'' = Some cwd"
    and short: "length cwd < 2 ^ 19"
    and argv: "argv = None \<and> args = [] \<or> argv = Some (map Some args @ None # rest)"
  shows "\<exists>w'. logExecution g (Some filename) argv w = Inr w'
           \<and> files w' (cstr (g_logFileName g))
               = Some ((case files w (cstr (g_logFileName g)) of None \<Rightarrow> [] | Some c \<Rightarrow> c)
                   @ spec_record (cstr (uint64ToString (ucast (ppid w)))) (cstr pstart)
                       (cstr (uint64ToString (ucast (pid w)))) (cstr sstart)
                       (cstr cwd) (cstr filename) (map cstr args))
           \<and> same_surroundings (cstr (g_logFileName g)) w w'"
proof -
  let ?path = "cstr (g_logFileName g)"
  let ?old = "case files w ?path of None \<Rightarrow> [] | Some c \<Rightarrow> c"
  let ?c9 = "\<lambda>(logFile9, w9). closeLogFile logFile9 w9"
  let ?c8 = "\<lambda>(logFile8, w8). bindE (writeChar logFile8 (CHR 0x0A) w8) ?c9"
  let ?c7 = "\<lambda>(logFile7, w7). bindE (writeChar logFile7 (CHR 0x0A) w7) ?c8"
  let ?c6 = "\<lambda>(logFile6, w6). bindE (logExecution_argv logFile6 argv w6) ?c7"
  let ?c5 = "\<lambda>(logFile5, w5). bindE (writeChar logFile5 (CHR 0x0A) w5) ?c6"
  let ?c4 = "\<lambda>(logFile4, w4).
        bindE (case Some filename of
                 None \<Rightarrow> Inl UndefinedBehaviour
               | Some text \<Rightarrow> writeEscapedString logFile4 text w4) ?c5"
  let ?c3 = "\<lambda>(logFile3, w3). bindE (writeSymLinkTarget logFile3 ''/proc/self/cwd'' w3) ?c4"
  let ?c2 = "\<lambda>(logFile2, w2). bindE (writePid g logFile2 (pid w2) w2) ?c3"
  let ?c1 = "\<lambda>(logFile1, w1). bindE (writePid g logFile1 (ppid w1) w1) ?c2"
  let ?c0 = "\<lambda>(logFile0, w0). bindE (writeString logFile0 ''exec\<newline>'' w0) ?c1"
  let ?parent = "cstr (uint64ToString (ucast (ppid w)))"
  let ?self = "cstr (uint64ToString (ucast (pid w)))"
  from openLogFile_ok [OF nf, of "g_logFileName g"]
  obtain logFile0 w0 where op: "openLogFile uninitialised_LogFile (g_logFileName g) w = Inr (logFile0, w0)"
    and ok0: "session_ok ?path logFile0 w0" and same0: "same_surroundings ?path w w0"
    and wr0: "written ?path logFile0 w0 = ?old"
    by blast
  have s9: "finishes ?path w logFile1 w1 [] (?c9 (logFile1, w1))"
    if "session_ok ?path logFile1 w1" "same_surroundings ?path w w1" for logFile1 w1
    unfolding prod.case by (rule finishes_closeLogFile [OF that])
  have s8: "finishes ?path w logFile1 w1 ([CHR 0x0A] @ []) (?c8 (logFile1, w1))"
    if "session_ok ?path logFile1 w1" "same_surroundings ?path w w1" for logFile1 w1
    unfolding prod.case
    by (rule finishes_bindE [OF that(2) writeChar_appends [OF that(1)]]) (rule s9)
  have s7: "finishes ?path w logFile1 w1 ([CHR 0x0A] @ [CHR 0x0A] @ []) (?c7 (logFile1, w1))"
    if "session_ok ?path logFile1 w1" "same_surroundings ?path w w1" for logFile1 w1
    unfolding prod.case
    by (rule finishes_bindE [OF that(2) writeChar_appends [OF that(1)]]) (rule s8)
  have args_ok: "appends ?path logFile1 w1 (spec_arg_line (map cstr args))
                   (logExecution_argv logFile1 argv w1)"
    if ok1: "session_ok ?path logFile1 w1" for logFile1 w1
  proof (cases argv)
    case None
    with argv have "args = []"
      by simp
    then show ?thesis
      using None ok1 by (simp add: logExecution_argv_def hiddenNull_def appends_Nil)
  next
    case (Some v)
    with argv have v: "v = map Some args @ None # rest"
      by simp
    from logExecution_args_appends [OF ok1, of 0 args rest]
    show ?thesis
      using Some v by (simp add: logExecution_argv_def hiddenNull_def)
  qed
  have s6: "finishes ?path w logFile1 w1
              (spec_arg_line (map cstr args) @ [CHR 0x0A] @ [CHR 0x0A] @ []) (?c6 (logFile1, w1))"
    if "session_ok ?path logFile1 w1" "same_surroundings ?path w w1" for logFile1 w1
    unfolding prod.case
    by (rule finishes_bindE [OF that(2) args_ok [OF that(1)]]) (rule s7)
  have s5: "finishes ?path w logFile1 w1
              ([CHR 0x0A] @ spec_arg_line (map cstr args) @ [CHR 0x0A] @ [CHR 0x0A] @ [])
              (?c5 (logFile1, w1))"
    if "session_ok ?path logFile1 w1" "same_surroundings ?path w w1" for logFile1 w1
    unfolding prod.case
    by (rule finishes_bindE [OF that(2) writeChar_appends [OF that(1)]]) (rule s6)
  have s4: "finishes ?path w logFile1 w1
              (spec_field (cstr filename) @ [CHR 0x0A] @ spec_arg_line (map cstr args)
                 @ [CHR 0x0A] @ [CHR 0x0A] @ [])
              (?c4 (logFile1, w1))"
    if "session_ok ?path logFile1 w1" "same_surroundings ?path w w1" for logFile1 w1
    unfolding prod.case option.case
    by (rule finishes_bindE [OF that(2) writeEscapedString_appends [OF that(1)]]) (rule s5)
  have s3: "finishes ?path w logFile1 w1
              ((spec_field (cstr cwd) @ [CHR 0x0A]) @ spec_field (cstr filename) @ [CHR 0x0A]
                 @ spec_arg_line (map cstr args) @ [CHR 0x0A] @ [CHR 0x0A] @ [])
              (?c3 (logFile1, w1))"
    if ok1: "session_ok ?path logFile1 w1" and same1: "same_surroundings ?path w w1" for logFile1 w1
  proof -
    have "links w1 (cstr ''/proc/self/cwd'') = Some cwd"
      using same1 cwd by (simp add: same_surroundings_def NUL_def)
    from writeSymLinkTarget_appends [OF ok1 this short]
    show ?thesis
      unfolding prod.case by (rule finishes_bindE [OF same1]) (rule s4)
  qed
  have s2: "finishes ?path w logFile1 w1
              ((?self @ [CHR 0x0A] @ cstr sstart @ [CHR 0x0A])
                 @ (spec_field (cstr cwd) @ [CHR 0x0A]) @ spec_field (cstr filename) @ [CHR 0x0A]
                 @ spec_arg_line (map cstr args) @ [CHR 0x0A] @ [CHR 0x0A] @ [])
              (?c2 (logFile1, w1))"
    if ok1: "session_ok ?path logFile1 w1" and same1: "same_surroundings ?path w w1" for logFile1 w1
  proof -
    have p: "pid w1 = pid w"
      using same1 by (simp add: same_surroundings_def)
    have "files w1 (procStatPath (pid w)) = Some scontent"
      using same_surroundings_files [OF same1 sne] sstat by simp
    from writePid_appends [OF ok1 this sne sstart]
    show ?thesis
      unfolding prod.case p by (rule finishes_bindE [OF same1]) (rule s3)
  qed
  have s1: "finishes ?path w logFile1 w1
              ((?parent @ [CHR 0x0A] @ cstr pstart @ [CHR 0x0A])
                 @ (?self @ [CHR 0x0A] @ cstr sstart @ [CHR 0x0A])
                 @ (spec_field (cstr cwd) @ [CHR 0x0A]) @ spec_field (cstr filename) @ [CHR 0x0A]
                 @ spec_arg_line (map cstr args) @ [CHR 0x0A] @ [CHR 0x0A] @ [])
              (?c1 (logFile1, w1))"
    if ok1: "session_ok ?path logFile1 w1" and same1: "same_surroundings ?path w w1" for logFile1 w1
  proof -
    have p: "ppid w1 = ppid w"
      using same1 by (simp add: same_surroundings_def)
    have "files w1 (procStatPath (ppid w)) = Some pcontent"
      using same_surroundings_files [OF same1 pne] pstat by simp
    from writePid_appends [OF ok1 this pne pstart]
    show ?thesis
      unfolding prod.case p by (rule finishes_bindE [OF same1]) (rule s2)
  qed
  have s0: "finishes ?path w logFile0 w0
              (cstr ''exec\<newline>'' @ (?parent @ [CHR 0x0A] @ cstr pstart @ [CHR 0x0A])
                 @ (?self @ [CHR 0x0A] @ cstr sstart @ [CHR 0x0A])
                 @ (spec_field (cstr cwd) @ [CHR 0x0A]) @ spec_field (cstr filename) @ [CHR 0x0A]
                 @ spec_arg_line (map cstr args) @ [CHR 0x0A] @ [CHR 0x0A] @ [])
              (?c0 (logFile0, w0))"
    unfolding prod.case
    by (rule finishes_bindE [OF same0 writeString_appends [OF ok0]]) (rule s1)
  have run: "logExecution g (Some filename) argv w = ?c0 (logFile0, w0)"
    using name by (simp add: logExecution_def g_logFileName_empty op)
  have bytes: "cstr ''exec\<newline>'' @ (?parent @ [CHR 0x0A] @ cstr pstart @ [CHR 0x0A])
                 @ (?self @ [CHR 0x0A] @ cstr sstart @ [CHR 0x0A])
                 @ (spec_field (cstr cwd) @ [CHR 0x0A]) @ spec_field (cstr filename) @ [CHR 0x0A]
                 @ spec_arg_line (map cstr args) @ [CHR 0x0A] @ [CHR 0x0A] @ []
      = spec_record ?parent (cstr pstart) ?self (cstr sstart) (cstr cwd) (cstr filename) (map cstr args)"
    by (simp add: spec_record_def NUL_def)
  from s0 show ?thesis
    unfolding run [symmetric] bytes
    by (cases "logExecution g (Some filename) argv w") (simp_all add: finishes_def wr0)
qed

section \<open>The staging buffer under any faults: facts\<close>

lemma sys_write_fdtab: "fdtab (snd (sys_write w d bytes)) = fdtab w"
  by (simp add: sys_write_def split: list.splits fault.splits option.splits)

lemma sys_write_interrupted:
  "fst (sys_write w d bytes) = -1 \<Longrightarrow> files (snd (sys_write w d bytes)) = files w"
  by (auto simp: sys_write_def split: list.splits fault.splits option.splits)

lemma sys_write_whole:
  "map_of (fdtab w) d = Some path \<Longrightarrow> sys_write w d bytes = (int (length bytes), w')
     \<Longrightarrow> files w' path = Some ((case files w path of None \<Rightarrow> [] | Some c \<Rightarrow> c) @ bytes)"
  by (auto simp: sys_write_def min_def split: list.splits fault.splits option.splits if_splits)

lemma write_EINTR_LOOP_whole:
  "map_of (fdtab w) d = Some path \<Longrightarrow> write_EINTR_LOOP w d bytes = (int (length bytes), w')
     \<Longrightarrow> files w' path = Some ((case files w path of None \<Rightarrow> [] | Some c \<Rightarrow> c) @ bytes)"
proof (induction w d bytes rule: write_EINTR_LOOP.induct)
  case (1 w d bytes)
  show ?case
  proof (cases "fst (sys_write w d bytes) = -1 \<and> errno (snd (sys_write w d bytes)) = EINTR")
    case True
    then have eq: "write_EINTR_LOOP w d bytes = write_EINTR_LOOP (snd (sys_write w d bytes)) d bytes"
      by (subst write_EINTR_LOOP.simps) simp
    have "files w' path
            = Some ((case files (snd (sys_write w d bytes)) path of None \<Rightarrow> [] | Some c \<Rightarrow> c) @ bytes)"
      using "1.IH" [OF True] "1.prems" by (simp add: sys_write_fdtab eq)
    then show ?thesis
      using True by (simp add: sys_write_interrupted)
  next
    case False
    then have "write_EINTR_LOOP w d bytes = sys_write w d bytes"
      by (subst write_EINTR_LOOP.simps) auto
    then show ?thesis
      using "1.prems" by (simp add: sys_write_whole)
  qed
qed

lemma flushLogFile_Inr:
  assumes "flushLogFile logFile w = Inr (logFile', w')"
  shows "logFile' = logFile\<lparr>bufCount := 0\<rparr>
         \<and> bufCount logFile \<le> length (buf logFile)
         \<and> write_EINTR_LOOP w (fd logFile) (take (bufCount logFile) (buf logFile))
             = (int (bufCount logFile), w')"
  using assms
  by (auto simp: flushLogFile_def safeAssert_def bindE_def split: if_splits prod.splits)

lemma flushLogFile_short_write:
  assumes "bufCount logFile \<le> length (buf logFile)"
    and "fst (write_EINTR_LOOP w (fd logFile) (take (bufCount logFile) (buf logFile))) \<noteq> int (bufCount logFile)"
  shows "flushLogFile logFile w = Inl (AssertFail ''Error writing to trace file.'')"
  using assms
  by (auto simp: flushLogFile_def safeAssert_def bindE_def split: prod.splits)

lemma flushLogFile_buf_ok:
  "buf_ok logFile \<Longrightarrow> flushLogFile logFile w = Inr (logFile', w') \<Longrightarrow> buf_ok logFile'"
  by (auto dest!: flushLogFile_Inr simp: buf_ok_def)

lemma writeChar_full:
  assumes "buf_ok logFile" and "bufCount logFile = sizeof_buf"
  shows "writeChar logFile ch w
           = bindE (flushLogFile logFile w) (\<lambda>(logFile', w').
               Inr (logFile'\<lparr>buf := (buf logFile')[0 := ch], bufCount := 1\<rparr>, w'))"
proof (cases "flushLogFile logFile w")
  case (Inl e)
  then show ?thesis
    using assms by (simp add: writeChar_def)
next
  case (Inr r)
  obtain logFile' w' where r: "r = (logFile', w')"
    by (cases r)
  from flushLogFile_Inr [OF Inr [unfolded r]] have "logFile' = logFile\<lparr>bufCount := 0\<rparr>"
    by simp
  then show ?thesis
    using assms Inr r by (simp add: writeChar_def buf_ok_def sizeof_buf_def)
qed

lemma writeChar_not_full:
  assumes "buf_ok logFile" and "bufCount logFile \<noteq> sizeof_buf"
  shows "writeChar logFile ch w
           = Inr (logFile\<lparr>buf := (buf logFile)[bufCount logFile := ch],
                         bufCount := bufCount logFile + 1\<rparr>, w)"
  using assms by (simp add: writeChar_def buf_ok_def)

lemma writeChar_buf_ok:
  assumes ok: "buf_ok logFile" and r: "writeChar logFile ch w = Inr (logFile', w')"
  shows "buf_ok logFile'"
proof (cases "bufCount logFile = sizeof_buf")
  case True
  from r show ?thesis
    unfolding writeChar_full [OF ok True]
    by (cases "flushLogFile logFile w")
       (auto dest!: flushLogFile_Inr simp: buf_ok_def sizeof_buf_def ok [unfolded buf_ok_def])
next
  case False
  from r ok False show ?thesis
    unfolding writeChar_not_full [OF ok False]
    by (auto simp: buf_ok_def)
qed

lemma writeString_buf_ok:
  "buf_ok logFile \<Longrightarrow> writeString logFile str w = Inr (logFile', w') \<Longrightarrow> buf_ok logFile'"
proof (induction str arbitrary: logFile w)
  case Nil
  then show ?case by simp
next
  case (Cons ch str)
  show ?case
  proof (cases "ch = NUL")
    case True
    then show ?thesis using Cons.prems by simp
  next
    case False
    with Cons.prems obtain logFile1 w1 where a: "writeChar logFile ch w = Inr (logFile1, w1)"
      and b: "writeString logFile1 str w1 = Inr (logFile', w')"
      by (auto split: sum.splits)
    from Cons.IH [OF writeChar_buf_ok [OF Cons.prems(1) a] b] show ?thesis .
  qed
qed

lemma writeEscapedString_loop_buf_ok:
  "buf_ok logFile \<Longrightarrow> writeEscapedString_loop logFile str w = Inr (logFile', w') \<Longrightarrow> buf_ok logFile'"
proof (induction str arbitrary: logFile w)
  case Nil
  then show ?case by simp
next
  case (Cons ch str)
  show ?case
  proof (cases "ch = NUL")
    case True
    then show ?thesis using Cons.prems by simp
  next
    case False
    with Cons.prems obtain logFile1 w1 logFile2 w2 where
      a: "(if ch = CHR 0x5C \<or> ch = CHR 0x22 then writeChar logFile (CHR 0x5C) w else Inr (logFile, w))
            = Inr (logFile1, w1)"
      and b: "writeChar logFile1 ch w1 = Inr (logFile2, w2)"
      and c: "writeEscapedString_loop logFile2 str w2 = Inr (logFile', w')"
      by (auto split: sum.splits)
    from a Cons.prems(1) have "buf_ok logFile1"
      by (auto split: if_splits dest: writeChar_buf_ok)
    from Cons.IH [OF writeChar_buf_ok [OF this b] c] show ?thesis .
  qed
qed

lemma writeEscapedString_buf_ok:
  assumes ok: "buf_ok logFile" and r: "writeEscapedString logFile str w = Inr (logFile', w')"
  shows "buf_ok logFile'"
proof -
  let ?q = "safeStrChr str (CHR '' '') \<noteq> None \<or> safeStrChr str (CHR 0x0A) \<noteq> None"
  from r obtain logFile1 w1 logFile2 w2 where
    a: "(if ?q then writeChar logFile (CHR 0x22) w else Inr (logFile, w)) = Inr (logFile1, w1)"
    and b: "writeEscapedString_loop logFile1 str w1 = Inr (logFile2, w2)"
    and c: "(if ?q then writeChar logFile2 (CHR 0x22) w2 else Inr (logFile2, w2)) = Inr (logFile', w')"
    unfolding writeEscapedString_def Let_def bindE_def
    by (auto split: sum.splits)
  from a ok have "buf_ok logFile1"
    by (auto split: if_splits dest: writeChar_buf_ok)
  from writeEscapedString_loop_buf_ok [OF this b] have "buf_ok logFile2" .
  with c show ?thesis
    by (auto split: if_splits dest: writeChar_buf_ok)
qed

lemma openLogFile_bufCount:
  "openLogFile logFile name w = Inr (logFile', w') \<Longrightarrow> bufCount logFile' = 0 \<and> buf logFile' = buf logFile"
  by (auto simp: openLogFile_def Let_def bindE_def safeAssert_def split: prod.splits if_splits)

lemma flushLogFile_whole_write:
  assumes "bufCount logFile \<le> length (buf logFile)"
    and "fst (write_EINTR_LOOP w (fd logFile) (take (bufCount logFile) (buf logFile))) = int (bufCount logFile)"
  shows "flushLogFile logFile w
           = Inr (logFile\<lparr>bufCount := 0\<rparr>,
                  snd (write_EINTR_LOOP w (fd logFile) (take (bufCount logFile) (buf logFile))))"
  using assms
  by (auto simp: flushLogFile_def safeAssert_def bindE_def split: prod.splits)

lemma flushLogFile_no_fault:
  assumes "buf_ok logFile" and "faults w = []" and "map_of (fdtab w) (fd logFile) = Some path"
  shows "flushLogFile logFile w
           = Inr (logFile\<lparr>bufCount := 0\<rparr>,
                  w\<lparr>files := (files w)(path \<mapsto>
                        (case files w path of None \<Rightarrow> [] | Some c \<Rightarrow> c)
                        @ take (bufCount logFile) (buf logFile))\<rparr>)"
proof -
  have ok: "session_ok path logFile w"
    using assms by (simp add: session_ok_def)
  show ?thesis
    unfolding flushLogFile_ok [OF ok] written_def by (rule refl)
qed

lemma writeChar_full_no_fault:
  assumes ok: "buf_ok logFile" and nf: "faults w = []"
    and m: "map_of (fdtab w) (fd logFile) = Some path"
    and full: "bufCount logFile = sizeof_buf"
  shows "writeChar logFile ch w
           = Inr (logFile\<lparr>buf := (buf logFile)[0 := ch], bufCount := 1\<rparr>,
                  w\<lparr>files := (files w)(path \<mapsto>
                        (case files w path of None \<Rightarrow> [] | Some c \<Rightarrow> c)
                        @ take (bufCount logFile) (buf logFile))\<rparr>)"
  unfolding writeChar_full [OF ok full] flushLogFile_no_fault [OF ok nf m]
  by simp

section \<open>The quoting scheme and the example: facts\<close>

lemma spec_unescape_escape: "spec_unescape (spec_escape s) = s"
proof (induction s)
  case Nil
  then show ?case by simp
next
  case (Cons ch s)
  show ?case
  proof (cases "ch = CHR 0x5C \<or> ch = CHR 0x22")
    case True
    then show ?thesis using Cons by auto
  next
    case False
    then show ?thesis
      using Cons by (cases "spec_escape s") auto
  qed
qed

lemma spec_escape_hd: "spec_escape s \<noteq> [] \<Longrightarrow> hd (spec_escape s) \<noteq> CHR 0x22"
  by (cases s) auto

lemma spec_strip_quotes_escape: "spec_strip_quotes (spec_escape s) = spec_escape s"
  using spec_escape_hd [of s] by (cases "spec_escape s") (auto simp: spec_strip_quotes_def)

lemma spec_strip_quotes_quoted: "spec_strip_quotes ([CHR 0x22] @ s @ [CHR 0x22]) = s"
  by (simp add: spec_strip_quotes_def butlast_append)

lemma spec_decode_field: "spec_decode (spec_field s) = s"
  unfolding spec_decode_def spec_field_def
  by (simp only: spec_strip_quotes_quoted spec_strip_quotes_escape spec_unescape_escape if_distrib
        [of spec_strip_quotes] if_distrib [of spec_unescape] if_cancel)

lemma spec_escape_concat:
  "spec_escape s = concat (map (\<lambda>ch. if ch = CHR 0x5C \<or> ch = CHR 0x22 then [CHR 0x5C, ch] else [ch]) s)"
  by (induction s) auto

lemma example_session_ok: "session_ok ''/tmp/t.log'' example_LogFile example_session_world"
  by (simp add: session_ok_def buf_ok_def example_LogFile_def uninitialised_LogFile_def
        example_session_world_def example_world_def sizeof_buf_def)

lemma example_written: "written ''/tmp/t.log'' example_LogFile example_session_world = []"
  by (simp add: written_def example_LogFile_def uninitialised_LogFile_def
        example_session_world_def example_world_def)

section \<open>Initialisation and the interception surface: facts\<close>

lemma cstr_replicate_NUL: "cstr (replicate n NUL) = []"
  by (cases n) simp_all

lemma init_g_logFileName_disabled:
  assumes "logFileVar = None \<or> (\<exists>v. logFileVar = Some v \<and> (safeStrLen v = 0 \<or> sizeof_g_logFileName \<le> safeStrLen v))"
  shows "init_g_logFileName logFileVar = replicate sizeof_g_logFileName NUL"
proof -
  have empty: "safeStrCpy v @ replicate (sizeof_g_logFileName - length (safeStrCpy v)) NUL
                 = replicate sizeof_g_logFileName NUL"
    if "safeStrLen v = 0" for v
  proof -
    from that have "cstr v = []"
      by (simp add: safeStrLen_cstr)
    then have "safeStrCpy v = [NUL]"
      by (simp add: safeStrCpy_cstr)
    then show ?thesis
      by (simp add: sizeof_g_logFileName_def) (simp add: replicate_Suc [symmetric] del: replicate_Suc)
  qed
  from assms show ?thesis
    by (auto simp: init_g_logFileName_def empty)
qed

lemma logExecution_disabled:
  "cstr (g_logFileName g) = [] \<Longrightarrow> logExecution g filename argv w = Inr w"
  by (simp add: logExecution_def g_logFileName_empty)

lemma ARG_COUNT_loop_strings:
  "ARG_COUNT_loop n (map VaStr strs @ VaNull # after) = Inr (n + length strs)"
  by (induction strs arbitrary: n) simp_all

lemma fill_argv_strings:
  "count = i + length strs
     \<Longrightarrow> fill_argv i count (map VaStr strs @ after) = Inr (map Some strs, after)"
proof (induction strs arbitrary: i)
  case Nil
  then show ?case
    by (subst fill_argv.simps) simp
next
  case (Cons a strs)
  then have "count = (i + 1) + length strs"
    by simp
  from Cons.IH [OF this] Cons.prems show ?case
    by (subst fill_argv.simps) simp
qed

lemma execl_argv:
  "execl g path (Some arg) (map VaStr strs @ VaNull # after) w
     = wrap_execve g path (Some (Some arg # map Some strs @ [None])) (environ w) w"
  by (simp add: execl_def ARG_COUNT_def hiddenNull_def ARG_COUNT_loop_strings fill_argv_strings)

lemma execlp_argv:
  "execlp g file (Some arg) (map VaStr strs @ VaNull # after) w
     = wrap_execvpe g file (Some (Some arg # map Some strs @ [None])) (environ w) w"
  by (simp add: execlp_def ARG_COUNT_def hiddenNull_def ARG_COUNT_loop_strings fill_argv_strings)

lemma execle_argv:
  "execle g path (Some arg) (map VaStr strs @ VaNull # VaEnv envp # after) w
     = wrap_execve g path (Some (Some arg # map Some strs @ [None])) (Some envp) w"
  by (simp add: execle_def ARG_COUNT_def hiddenNull_def ARG_COUNT_loop_strings fill_argv_strings)

lemma execl_NULL:
  "execl g path None va w = wrap_execve g path (Some [None]) (environ w) w"
  by (simp add: execl_def ARG_COUNT_def hiddenNull_def)

lemma execlp_NULL:
  "execlp g file None va w = wrap_execvpe g file (Some [None]) (environ w) w"
  by (simp add: execlp_def ARG_COUNT_def hiddenNull_def)

lemma execle_NULL:
  "execle g path None va w
     = bindE (va_arg_charpp va) (\<lambda>(envp, ap). wrap_execve g path (Some [None]) envp w)"
  by (simp add: execle_def ARG_COUNT_def hiddenNull_def)

section \<open>The argument line and the lines of a record: facts\<close>

lemma logExecution_argv_appends:
  assumes ok: "session_ok path logFile w"
  shows "appends path logFile w (spec_arg_line (map cstr args))
           (logExecution_argv logFile (Some (map Some args @ None # rest)) w)"
  using logExecution_args_appends [OF ok, of 0 args rest]
  by (simp add: logExecution_argv_def hiddenNull_def)

lemma spec_escape_Nil_iff: "(spec_escape s = []) = (s = [])"
  by (cases s) auto

lemma spec_escape_hd_space: "CHR '' '' \<notin> set s \<Longrightarrow> s \<noteq> [] \<Longrightarrow> hd (spec_escape s) \<noteq> CHR '' ''"
  by (cases s) auto

lemma spec_escape_last: "s \<noteq> [] \<Longrightarrow> last (spec_escape s) = last s"
proof (induction s)
  case Nil
  then show ?case by simp
next
  case (Cons ch s)
  then show ?case
    by (cases s) (auto simp: spec_escape_Nil_iff)
qed

lemma spec_field_Nil_iff: "(spec_field s = []) = (s = [])"
  by (auto simp: spec_field_def spec_escape_Nil_iff)

lemma spec_field_hd: "s \<noteq> [] \<Longrightarrow> hd (spec_field s) \<noteq> CHR '' ''"
  by (auto simp: spec_field_def spec_escape_hd_space)

lemma spec_field_last: "s \<noteq> [] \<Longrightarrow> last (spec_field s) \<noteq> CHR '' ''"
proof -
  assume ne: "s \<noteq> []"
  show ?thesis
  proof (cases "CHR '' '' \<in> set s \<or> CHR 0x0A \<in> set s")
    case True
    then show ?thesis by (simp add: spec_field_def)
  next
    case False
    then have "last s \<noteq> CHR '' ''"
      using last_in_set [OF ne] by metis
    then show ?thesis
      using False ne by (simp add: spec_field_def spec_escape_last)
  qed
qed

lemma spec_arg_line_Nil_iff: "(spec_arg_line xs = []) = (xs = [] \<or> xs = [[]])"
  by (induction xs rule: spec_arg_line.induct) (auto simp: spec_field_Nil_iff)

lemma spec_arg_line_hd: "xs \<noteq> [] \<Longrightarrow> hd xs \<noteq> [] \<Longrightarrow> hd (spec_arg_line xs) \<noteq> CHR '' ''"
  by (induction xs rule: spec_arg_line.induct) (auto simp: spec_field_hd spec_field_Nil_iff)

lemma spec_arg_line_last: "xs \<noteq> [] \<Longrightarrow> last xs \<noteq> [] \<Longrightarrow> last (spec_arg_line xs) \<noteq> CHR '' ''"
proof (induction xs rule: spec_arg_line.induct)
  case 1
  then show ?case by simp
next
  case (2 a)
  then show ?case by (simp add: spec_field_last)
next
  case (3 a b args)
  then have "spec_arg_line (b # args) \<noteq> []"
    by (auto simp: spec_arg_line_Nil_iff)
  then show ?case
    using 3 by simp
qed

lemma spec_arg_line_length:
  "length (spec_arg_line xs) = sum_list (map (\<lambda>a. length (spec_field a)) xs) + (length xs - 1)"
  by (induction xs rule: spec_arg_line.induct) simp_all

lemma spec_lines_from_line:
  "CHR 0x0A \<notin> set a \<Longrightarrow> spec_lines_from cur (a @ CHR 0x0A # s) = (rev cur @ a) # spec_lines_from [] s"
  by (induction a arbitrary: cur) auto

lemma spec_lines_items:
  "(\<And>item. item \<in> set items \<Longrightarrow> CHR 0x0A \<notin> set item)
     \<Longrightarrow> spec_lines (concat (map (\<lambda>item. item @ [CHR 0x0A]) items)) = items"
proof (induction items)
  case Nil
  then show ?case by (simp add: spec_lines_def)
next
  case (Cons a items)
  then have a: "CHR 0x0A \<notin> set a" and ih: "spec_lines (concat (map (\<lambda>item. item @ [CHR 0x0A]) items)) = items"
    by simp_all
  show ?case
    using spec_lines_from_line [OF a, of "[]"] ih by (simp add: spec_lines_def)
qed

lemma spec_escape_set: "set (spec_escape s) \<subseteq> insert (CHR 0x5C) (set s)"
  by (induction s) auto

lemma spec_field_no_newline: "CHR 0x0A \<notin> set s \<Longrightarrow> CHR 0x0A \<notin> set (spec_field s)"
  using spec_escape_set [of s] by (auto simp: spec_field_def)

lemma spec_arg_line_no_newline:
  "(\<And>a. a \<in> set xs \<Longrightarrow> CHR 0x0A \<notin> set a) \<Longrightarrow> CHR 0x0A \<notin> set (spec_arg_line xs)"
  by (induction xs rule: spec_arg_line.induct) (auto simp: spec_field_no_newline)

lemma digits_no_newline: "list_all safeIsDigit ds \<Longrightarrow> CHR 0x0A \<notin> set ds"
  by (induction ds) (auto simp: safeIsDigit_def)

lemma cstr_uint64ToString_no_newline: "CHR 0x0A \<notin> set (cstr (uint64ToString n))"
  unfolding cstr_uint64ToString by (rule digits_no_newline [OF uint64ToString_loop_digits])

lemma writePid_startTime_decimal:
  "writePid_startTime g data = Inr startTime \<Longrightarrow> \<exists>n. startTime = uint64ToString n"
  by (auto simp: writePid_startTime_def Let_def bindE_def safeAssert_def
           split: option.splits sum.splits if_splits)

lemma spec_record_lines:
  assumes "CHR 0x0A \<notin> set parent" "CHR 0x0A \<notin> set parent_start" "CHR 0x0A \<notin> set self"
    "CHR 0x0A \<notin> set self_start" "CHR 0x0A \<notin> set cwd" "CHR 0x0A \<notin> set filename"
    "\<And>a. a \<in> set args \<Longrightarrow> CHR 0x0A \<notin> set a"
  shows "spec_lines (spec_record parent parent_start self self_start cwd filename args)
           = [''exec'', parent, parent_start, self, self_start,
              spec_field cwd, spec_field filename, spec_arg_line args, []]"
  unfolding spec_record_def
proof (rule spec_lines_items)
  fix item
  assume "item \<in> set [''exec'', parent, parent_start, self, self_start,
                          spec_field cwd, spec_field filename, spec_arg_line args, []]"
  with assms show "CHR 0x0A \<notin> set item"
    by (auto simp: spec_field_no_newline spec_arg_line_no_newline)
qed

lemma spec_field_take1: "take 1 (spec_field s) \<noteq> '' ''"
proof (cases "s = []")
  case True
  then show ?thesis by (simp add: spec_field_def)
next
  case False
  then have ne: "spec_field s \<noteq> []"
    by (simp add: spec_field_Nil_iff)
  have "hd (spec_field s) \<noteq> CHR '' ''"
    by (rule spec_field_hd [OF False])
  then show ?thesis
    using ne by (cases "spec_field s") simp_all
qed

lemma spec_arg_line_begins_with_space:
  "(take 1 (spec_arg_line xs) = '' '') = (2 \<le> length xs \<and> hd xs = [])"
proof (induction xs rule: spec_arg_line.induct)
  case 1
  then show ?case by simp
next
  case (2 a)
  then show ?case using spec_field_take1 [of a] by simp
next
  case (3 a b args)
  show ?case
  proof (cases "a = []")
    case True
    then show ?thesis by (simp add: spec_field_def)
  next
    case False
    then have ne: "spec_field a \<noteq> []"
      by (simp add: spec_field_Nil_iff)
    then have "take 1 (spec_field a @ [CHR '' ''] @ spec_arg_line (b # args)) = take 1 (spec_field a)"
      by (cases "spec_field a") simp_all
    then show ?thesis
      using False spec_field_take1 [of a] by simp
  qed
qed

lemma spec_field_ends: "\<not> (spec_field s \<noteq> [] \<and> last (spec_field s) = CHR '' '')"
  using spec_field_last [of s] by (auto simp: spec_field_Nil_iff)

lemma spec_arg_line_ends_with_space:
  "(spec_arg_line xs \<noteq> [] \<and> last (spec_arg_line xs) = CHR '' '') = (2 \<le> length xs \<and> last xs = [])"
proof (induction xs rule: spec_arg_line.induct)
  case 1
  then show ?case by simp
next
  case (2 a)
  then show ?case using spec_field_ends [of a] by simp
next
  case (3 a b args)
  show ?case
  proof (cases "spec_arg_line (b # args) = []")
    case True
    then have "b # args = [[]]"
      by (simp add: spec_arg_line_Nil_iff)
    then show ?thesis
      using True by simp
  next
    case False
    have l: "last (spec_arg_line (a # b # args)) = last (spec_arg_line (b # args))"
      using False by simp
    show ?thesis
    proof (cases args)
      case Nil
      then have "b \<noteq> []"
        using False by (simp add: spec_field_Nil_iff)
      then show ?thesis
        using Nil spec_field_ends [of b] by (simp add: spec_field_Nil_iff)
    next
      case (Cons c cs)
      then show ?thesis
        using 3 False l by simp
    qed
  qed
qed

section \<open>The example run: facts\<close>

lemma example_name: "cstr (g_logFileName example_globals) = ''/tmp/t.log''"
  by code_simp

lemma example_faults: "faults example_world = []"
  by (simp add: example_world_def)

lemma example_ppid: "procStatPath (ppid example_world) = ''/proc/100/stat''"
  by code_simp

lemma example_pid: "procStatPath (pid example_world) = ''/proc/200/stat''"
  by code_simp

lemma example_parent: "cstr (uint64ToString (ucast (ppid example_world))) = ''100''"
  by code_simp

lemma example_self: "cstr (uint64ToString (ucast (pid example_world))) = ''200''"
  by code_simp

lemma example_parent_start:
  "writePid_startTime example_globals (take 1023 example_stat_parent) = Inr (''5000'' @ [NUL])"
  by code_simp

lemma example_self_start:
  "writePid_startTime example_globals (take 1023 example_stat_self) = Inr (''6000'' @ [NUL])"
  by code_simp

lemma example_files:
  "files example_world ''/proc/100/stat'' = Some example_stat_parent"
  "files example_world ''/proc/200/stat'' = Some example_stat_self"
  "files example_world ''/tmp/t.log'' = None"
  "links example_world ''/proc/self/cwd'' = Some ''/w''"
  by (simp_all add: example_world_def)

lemma example_name_nonempty: "cstr (g_logFileName example_globals) \<noteq> []"
  by (simp add: example_name)

lemma example_stat_paths:
  "procStatPath (ppid example_world) \<noteq> cstr (g_logFileName example_globals)"
  "procStatPath (pid example_world) \<noteq> cstr (g_logFileName example_globals)"
  "files example_world (procStatPath (ppid example_world)) = Some example_stat_parent"
  "files example_world (procStatPath (pid example_world)) = Some example_stat_self"
  by (simp_all add: example_name example_ppid example_pid example_files)

lemma example_cwd_short: "length ''/w'' < 2 ^ 19"
  by simp

lemma example_cstr:
  "cstr (''5000'' @ [NUL]) = ''5000''" "cstr (''6000'' @ [NUL]) = ''6000''" "cstr ''/w'' = ''/w''"
  by (simp_all add: NUL_def)

lemma example_run:
  assumes "argv = None \<and> args = [] \<or> argv = Some (map Some args @ None # rest)"
  shows "trace_file ''/tmp/t.log'' (logExecution example_globals (Some filename) argv example_world)
           = Some (spec_record ''100'' ''5000'' ''200'' ''6000'' ''/w'' (cstr filename) (map cstr args))"
proof -
  note r = logExecution_writes_record [OF example_name_nonempty example_faults
      example_stat_paths(3) example_stat_paths(1) example_parent_start
      example_stat_paths(4) example_stat_paths(2) example_self_start
      example_files(4) example_cwd_short assms, of filename]
  from r [unfolded example_name example_parent example_self example_cstr example_files(3)
      option.case append_Nil]
  obtain w' where "logExecution example_globals (Some filename) argv example_world = Inr w'"
    and "files w' ''/tmp/t.log''
           = Some (spec_record ''100'' ''5000'' ''200'' ''6000'' ''/w'' (cstr filename) (map cstr args))"
    by blast
  then show ?thesis
    by (simp add: trace_file_def)
qed

section \<open>Parsing the start time: facts\<close>

lemma safeStrRChr_loop_no_more:
  "c \<notin> set s \<Longrightarrow> c \<noteq> NUL \<Longrightarrow> safeStrRChr_loop ret s c = ret"
  by (induction s arbitrary: ret) (auto simp: Let_def)

lemma safeStrRChr_loop_last:
  "NUL \<notin> set pre \<Longrightarrow> c \<notin> set s \<Longrightarrow> c \<noteq> NUL
     \<Longrightarrow> safeStrRChr_loop ret (pre @ c # s) c = Some (c # s)"
  by (induction pre arbitrary: ret) (auto simp: Let_def safeStrRChr_loop_no_more)

lemma safeStrChr_field:
  "c \<notin> set f \<Longrightarrow> NUL \<notin> set f \<Longrightarrow> safeStrChr (f @ c # s) c = Some (c # s)"
  by (induction f) auto

lemma ptr_add_Cons: "s \<noteq> [] \<Longrightarrow> ptr_add (c # s) 1 = Inr s"
  by (simp add: ptr_add_def)

lemma writePid_advance_fields:
  assumes "\<And>f. f \<in> set flds \<Longrightarrow> CHR '' '' \<notin> set f \<and> NUL \<notin> set f"
    and "s \<noteq> []"
  shows "i + length flds = 22
     \<Longrightarrow> writePid_advance i (concat (map (\<lambda>f. f @ '' '') flds) @ s) = Inr s"
  using assms(1)
proof (induction flds arbitrary: i)
  case Nil
  then show ?case
    by (subst writePid_advance.simps) simp
next
  case (Cons f flds)
  then have i: "i < 22" and n: "(i + 1) + length flds = 22"
    by simp_all
  have f: "CHR '' '' \<notin> set f" "NUL \<notin> set f"
    using Cons.prems(2) [of f] by simp_all
  have ne: "concat (map (\<lambda>f. f @ '' '') flds) @ s \<noteq> []"
    using assms(2) by simp
  have ih: "writePid_advance (i + 1) (concat (map (\<lambda>f. f @ '' '') flds) @ s) = Inr s"
    by (rule Cons.IH [OF n]) (simp add: Cons.prems(2))
  have chr: "safeStrChr (concat (map (\<lambda>f. f @ '' '') (f # flds)) @ s) (CHR '' '')
               = Some (CHR '' '' # concat (map (\<lambda>f. f @ '' '') flds) @ s)"
    using safeStrChr_field [OF f, of "concat (map (\<lambda>f. f @ '' '') flds) @ s"] by simp
  show ?case
    using i by (subst writePid_advance.simps) (simp only: chr option.case ptr_add_Cons [OF ne] sum.case ih if_True)
qed

lemma stringToUint64_field:
  "\<not> safeIsDigit c \<Longrightarrow> stringToUint64 (f @ c # s) = stringToUint64 f"
proof -
  assume c: "\<not> safeIsDigit c"
  have "takeWhile safeIsDigit (f @ c # s) = takeWhile safeIsDigit f"
    using c by (induction f) simp_all
  then show ?thesis
    by (simp add: stringToUint64_eq)
qed

lemma writePid_startTime_fields:
  assumes pre: "NUL \<notin> set pre"
    and flds: "length flds = 19"
      "\<And>f. f \<in> set flds \<Longrightarrow> CHR '' '' \<notin> set f \<and> NUL \<notin> set f \<and> CHR '')'' \<notin> set f"
    and f22: "CHR '' '' \<notin> set field22" "NUL \<notin> set field22" "CHR '')'' \<notin> set field22"
    and after: "CHR '')'' \<notin> set after"
    and data: "data = pre @ '') '' @ concat (map (\<lambda>f. f @ '' '') flds) @ field22 @ '' '' @ after"
  shows "writePid_startTime g data
           = Inr (uint64ToString (g_bootTimeInJiffies g + stringToUint64 field22))"
proof -
  let ?fs = "concat (map (\<lambda>f. f @ '' '') flds)"
  let ?p = "field22 @ CHR '' '' # after @ [NUL]"
  let ?tail = "CHR '' '' # ?fs @ ?p"
  have content: "data @ [NUL] = pre @ CHR '')'' # ?tail"
    by (simp add: data)
  have no_paren: "CHR '')'' \<notin> set ?tail"
    using flds(2) f22(3) after by (auto simp: NUL_def)
  have rchr: "safeStrRChr (data @ [NUL]) (CHR '')'') = Some (CHR '')'' # ?tail)"
    unfolding content safeStrRChr_def
    by (rule safeStrRChr_loop_last [OF pre no_paren]) (simp add: NUL_def)
  have skip: "ptr_add (CHR '')'' # ?tail) 2 = Inr (?fs @ ?p)"
    by (simp add: ptr_add_def)
  have adv: "writePid_advance 3 (?fs @ ?p) = Inr ?p"
    by (rule writePid_advance_fields) (simp_all add: flds)
  have pend: "safeStrChr ?p (CHR '' '') \<noteq> None"
    using safeStrChr_field [OF f22(1,2), of "after @ [NUL]"] by simp
  have val: "stringToUint64 ?p = stringToUint64 field22"
    by (rule stringToUint64_field) (simp add: safeIsDigit_def)
  show ?thesis
    unfolding writePid_startTime_def Let_def rchr option.case skip bindE_Inr adv
    using pend by (simp add: safeAssert_def val)
qed

lemma decimal_value_emitted:
  "decimal_value (cstr (uint64ToString (boot + stringToUint64 f)))
     = (unat boot + decimal_value (takeWhile safeIsDigit f)) mod 2 ^ 64"
proof -
  have "decimal_value (cstr (uint64ToString (boot + stringToUint64 f)))
          = unat (boot + stringToUint64 f)"
    by (simp only: cstr_uint64ToString decimal_value_uint64ToString_loop)
  also have "\<dots> = (unat boot + unat (stringToUint64 f)) mod 2 ^ 64"
    by (simp add: unat_word_ariths)
  also have "unat (stringToUint64 f) = decimal_value (takeWhile safeIsDigit f) mod 2 ^ 64"
    by (simp add: stringToUint64_eq unat_of_nat)
  finally show ?thesis
    by (simp add: mod_add_right_eq)
qed

lemma unat_ucast_pid: "unat (ucast (p :: 32 word) :: 64 word) = unat p"
proof -
  have "uint (ucast p :: 64 word) = uint p"
    by (rule uint_up_ucast) (simp add: is_up)
  then have "nat (uint (ucast p :: 64 word)) = nat (uint p)"
    by (rule arg_cong)
  then show ?thesis
    by (simp only: unat_eq_nat_uint [symmetric])
qed

section \<open>The claims\<close>

text \<open>
  Claim C1, as amended. Let the configured log path be non-empty, let the surroundings
  force no fault, let \<open>/proc/<pid>/stat\<close> exist for the parent and for the process itself
  with a start time that \<open>writePid\<close> can parse, let neither be the trace file, and let
  the target of \<open>/proc/self/cwd\<close> be shorter than 512 KiB. Then \<open>logExecution\<close> returns
  and has appended to the trace file exactly one record: the nine items \<open>exec\<close>, the
  parent pid, the parent's start tick since the epoch, the pid, its start tick since the
  epoch, the cwd field, the filename field, the argument line and the empty item, each
  followed by a newline. When neither the cwd nor the filename nor an argument contains a
  newline, these are the nine lines of the record; a newline inside a value is written
  as it is, inside double quotes, and adds a line.
\<close>

theorem exec_record:
  assumes name: "cstr (g_logFileName g) \<noteq> []"
    and nf: "faults w = []"
    and pstat: "files w (procStatPath (ppid w)) = Some pcontent"
    and pne: "procStatPath (ppid w) \<noteq> cstr (g_logFileName g)"
    and pstart: "writePid_startTime g (take 1023 pcontent) = Inr pstart"
    and sstat: "files w (procStatPath (pid w)) = Some scontent"
    and sne: "procStatPath (pid w) \<noteq> cstr (g_logFileName g)"
    and sstart: "writePid_startTime g (take 1023 scontent) = Inr sstart"
    and cwd: "links w ''/proc/self/cwd'' = Some cwd"
    and short: "length cwd < 2 ^ 19"
    and argv: "argv = None \<and> args = [] \<or> argv = Some (map Some args @ None # rest)"
  shows "trace_file (cstr (g_logFileName g)) (logExecution g (Some filename) argv w)
           = Some ((case files w (cstr (g_logFileName g)) of None \<Rightarrow> [] | Some c \<Rightarrow> c)
                   @ spec_record (cstr (uint64ToString (ucast (ppid w)))) (cstr pstart)
                       (cstr (uint64ToString (ucast (pid w)))) (cstr sstart)
                       (cstr cwd) (cstr filename) (map cstr args))
       \<and> (CHR 0x0A \<notin> set (cstr cwd) \<and> CHR 0x0A \<notin> set (cstr filename)
            \<and> (\<forall>a \<in> set args. CHR 0x0A \<notin> set (cstr a)) \<longrightarrow>
          spec_lines (spec_record (cstr (uint64ToString (ucast (ppid w)))) (cstr pstart)
                       (cstr (uint64ToString (ucast (pid w)))) (cstr sstart)
                       (cstr cwd) (cstr filename) (map cstr args))
            = [''exec'', cstr (uint64ToString (ucast (ppid w))), cstr pstart,
               cstr (uint64ToString (ucast (pid w))), cstr sstart,
               spec_field (cstr cwd), spec_field (cstr filename), spec_arg_line (map cstr args), []])"
proof (rule conjI)
  from logExecution_writes_record [OF name nf pstat pne pstart sstat sne sstart cwd short argv, of filename]
  show "trace_file (cstr (g_logFileName g)) (logExecution g (Some filename) argv w)
           = Some ((case files w (cstr (g_logFileName g)) of None \<Rightarrow> [] | Some c \<Rightarrow> c)
                   @ spec_record (cstr (uint64ToString (ucast (ppid w)))) (cstr pstart)
                       (cstr (uint64ToString (ucast (pid w)))) (cstr sstart)
                       (cstr cwd) (cstr filename) (map cstr args))"
    by (auto simp: trace_file_def)
next
  from writePid_startTime_decimal [OF pstart] have p: "CHR 0x0A \<notin> set (cstr pstart)"
    by (auto simp: cstr_uint64ToString_no_newline)
  from writePid_startTime_decimal [OF sstart] have s: "CHR 0x0A \<notin> set (cstr sstart)"
    by (auto simp: cstr_uint64ToString_no_newline)
  show "CHR 0x0A \<notin> set (cstr cwd) \<and> CHR 0x0A \<notin> set (cstr filename)
            \<and> (\<forall>a \<in> set args. CHR 0x0A \<notin> set (cstr a)) \<longrightarrow>
          spec_lines (spec_record (cstr (uint64ToString (ucast (ppid w)))) (cstr pstart)
                       (cstr (uint64ToString (ucast (pid w)))) (cstr sstart)
                       (cstr cwd) (cstr filename) (map cstr args))
            = [''exec'', cstr (uint64ToString (ucast (ppid w))), cstr pstart,
               cstr (uint64ToString (ucast (pid w))), cstr sstart,
               spec_field (cstr cwd), spec_field (cstr filename), spec_arg_line (map cstr args), []]"
  proof
    assume h: "CHR 0x0A \<notin> set (cstr cwd) \<and> CHR 0x0A \<notin> set (cstr filename)
            \<and> (\<forall>a \<in> set args. CHR 0x0A \<notin> set (cstr a))"
    show "spec_lines (spec_record (cstr (uint64ToString (ucast (ppid w)))) (cstr pstart)
                       (cstr (uint64ToString (ucast (pid w)))) (cstr sstart)
                       (cstr cwd) (cstr filename) (map cstr args))
            = [''exec'', cstr (uint64ToString (ucast (ppid w))), cstr pstart,
               cstr (uint64ToString (ucast (pid w))), cstr sstart,
               spec_field (cstr cwd), spec_field (cstr filename), spec_arg_line (map cstr args), []]"
      using h p s by (intro spec_record_lines) (auto simp: cstr_uint64ToString_no_newline)
  qed
qed

theorem exec_record_witness:
  "trace_file ''/tmp/t.log''
     (logExecution example_globals (Some ''/bin/ls'') (Some [Some ''ls'', Some ''-l'', None]) example_world)
     = Some ''exec\<newline>100\<newline>5000\<newline>200\<newline>6000\<newline>/w\<newline>/bin/ls\<newline>ls -l\<newline>\<newline>''
   \<and> spec_lines ''exec\<newline>100\<newline>5000\<newline>200\<newline>6000\<newline>/w\<newline>/bin/ls\<newline>ls -l\<newline>\<newline>''
     = [''exec'', ''100'', ''5000'', ''200'', ''6000'', ''/w'', ''/bin/ls'', ''ls -l'', []]"
proof -
  have argv: "Some [Some ''ls'', Some ''-l'', None] = None \<and> [''ls'', ''-l''] = []
              \<or> Some [Some ''ls'', Some ''-l'', None] = Some (map Some [''ls'', ''-l''] @ None # [])"
    by simp
  have c: "cstr ''/bin/ls'' = ''/bin/ls''" "map cstr [''ls'', ''-l''] = [''ls'', ''-l'']"
    by (simp_all add: NUL_def)
  have rec: "spec_record ''100'' ''5000'' ''200'' ''6000'' ''/w'' ''/bin/ls'' [''ls'', ''-l'']
               = ''exec\<newline>100\<newline>5000\<newline>200\<newline>6000\<newline>/w\<newline>/bin/ls\<newline>ls -l\<newline>\<newline>''"
    by (simp add: spec_record_def spec_field_def)
  have fields: "spec_field ''/w'' = ''/w''" "spec_field ''/bin/ls'' = ''/bin/ls''"
    "spec_arg_line [''ls'', ''-l''] = ''ls -l''"
    by (simp_all add: spec_field_def)
  have nl: "CHR 0x0A \<notin> set ''/w'' \<and> CHR 0x0A \<notin> set ''/bin/ls''
            \<and> (\<forall>a \<in> set [''ls'', ''-l'']. CHR 0x0A \<notin> set (cstr a))"
    by (simp add: NUL_def)
  note t = exec_record [OF example_name_nonempty example_faults
      example_stat_paths(3) example_stat_paths(1) example_parent_start
      example_stat_paths(4) example_stat_paths(2) example_self_start
      example_files(4) example_cwd_short argv, of "''/bin/ls''",
      unfolded example_name example_parent example_self example_cstr example_files(3)
        option.case append_Nil c rec fields]
  from t nl show ?thesis
    by blast
qed

text \<open>
  The claim as stated fails for a filename with a newline in it: the record of the
  filename \<open>a\<close>, newline, \<open>b\<close> has ten lines, eight of them between \<open>exec\<close> and the
  blank line.
\<close>

theorem exec_record_counterexample:
  "map_option spec_lines
     (trace_file ''/tmp/t.log''
        (logExecution example_globals (Some (''a'' @ [CHR 0x0A] @ ''b'')) (Some [Some ''ls'', None])
           example_world))
     = Some [''exec'', ''100'', ''5000'', ''200'', ''6000'', ''/w'',
             [CHR 0x22] @ ''a'', ''b'' @ [CHR 0x22], ''ls'', []]"
proof -
  have argv: "Some [Some ''ls'', None] = None \<and> [''ls''] = []
              \<or> Some [Some ''ls'', None] = Some (map Some [''ls''] @ None # [])"
    by simp
  have l: "spec_lines (spec_record ''100'' ''5000'' ''200'' ''6000'' ''/w''
             (cstr (''a'' @ [CHR 0x0A] @ ''b'')) (map cstr [''ls'']))
           = [''exec'', ''100'', ''5000'', ''200'', ''6000'', ''/w'',
              [CHR 0x22] @ ''a'', ''b'' @ [CHR 0x22], ''ls'', []]"
    by (simp add: spec_lines_def spec_record_def spec_field_def NUL_def)
  show ?thesis
    unfolding example_run [OF argv] option.map l by (rule refl)
qed

text \<open>
  Claim C2. Let the content of \<open>/proc/<pid>/stat\<close> fit in the 1023 bytes that \<open>writePid\<close>
  reads, and let it have the format of that file: after its last closing parenthesis
  come a space, the fields 3 to 21, each followed by a space, field 22 followed by a
  space, and the remaining fields. What stands before the last closing parenthesis, the
  executable name in it, is arbitrary and may contain closing parentheses and spaces.
  Then, in a session that no fault disturbs, \<open>writePid\<close> appends two lines: the pid in
  decimal, and in decimal the integer that field 22 starts with plus the cached boot
  tick, a sum of 64-bit values.
\<close>

theorem writePid_start_tick:
  assumes ok: "session_ok path logFile w"
    and stat: "files w (procStatPath p) = Some content"
    and ne: "procStatPath p \<noteq> path"
    and fits: "length content \<le> 1023"
    and shape: "content = pre @ '') '' @ concat (map (\<lambda>f. f @ '' '') flds) @ field22 @ '' '' @ after"
    and pre: "NUL \<notin> set pre"
    and count: "length flds = 19"
    and flds: "\<forall>f \<in> set flds. CHR '' '' \<notin> set f \<and> NUL \<notin> set f \<and> CHR '')'' \<notin> set f"
    and f22: "CHR '' '' \<notin> set field22 \<and> NUL \<notin> set field22 \<and> CHR '')'' \<notin> set field22"
    and after: "CHR '')'' \<notin> set after"
  shows "session_written path (writePid g logFile p w)
           = Some (written path logFile w
                   @ cstr (uint64ToString (ucast p)) @ [CHR 0x0A]
                   @ cstr (uint64ToString (g_bootTimeInJiffies g + stringToUint64 field22)) @ [CHR 0x0A])
       \<and> decimal_value (cstr (uint64ToString (ucast p))) = unat p
       \<and> decimal_value (cstr (uint64ToString (g_bootTimeInJiffies g + stringToUint64 field22)))
           = (unat (g_bootTimeInJiffies g) + decimal_value (takeWhile safeIsDigit field22)) mod 2 ^ 64"
proof (intro conjI)
  have t: "take 1023 content = content"
    using fits by simp
  have st: "writePid_startTime g (take 1023 content)
              = Inr (uint64ToString (g_bootTimeInJiffies g + stringToUint64 field22))"
    unfolding t
    by (rule writePid_startTime_fields [OF pre count _ _ _ _ after shape])
       (use flds f22 in auto)
  from writePid_appends [OF ok stat ne st]
  show "session_written path (writePid g logFile p w)
           = Some (written path logFile w
                   @ cstr (uint64ToString (ucast p)) @ [CHR 0x0A]
                   @ cstr (uint64ToString (g_bootTimeInJiffies g + stringToUint64 field22)) @ [CHR 0x0A])"
    by (auto elim!: appendsE simp: session_written_def)
  show "decimal_value (cstr (uint64ToString (ucast p))) = unat p"
    by (simp only: cstr_uint64ToString decimal_value_uint64ToString_loop) (rule unat_ucast_pid)
  show "decimal_value (cstr (uint64ToString (g_bootTimeInJiffies g + stringToUint64 field22)))
           = (unat (g_bootTimeInJiffies g) + decimal_value (takeWhile safeIsDigit field22)) mod 2 ^ 64"
    by (rule decimal_value_emitted)
qed

theorem writePid_start_tick_witness:
  "session_written ''/tmp/t.log'' (writePid example_globals example_LogFile 100 example_session_world)
     = Some ''100\<newline>5000\<newline>''"
proof -
  let ?flds = "[''S'', ''1'', ''100'', ''100'', ''0'', ''-1'', ''4194560'', ''500'', ''0'', ''0'', ''0'',
               ''1'', ''2'', ''0'', ''0'', ''20'', ''0'', ''1'', ''0'']"
  have p: "procStatPath 100 = ''/proc/100/stat''"
    using example_ppid by (simp add: example_world_def)
  have stat: "files example_session_world (procStatPath 100) = Some example_stat_parent"
    unfolding p by (simp add: example_session_world_def example_world_def)
  have ne: "procStatPath 100 \<noteq> ''/tmp/t.log''"
    unfolding p by simp
  have fits: "length example_stat_parent \<le> 1023"
    by (simp add: example_stat_parent_def)
  have shape: "example_stat_parent
      = ''100 (a) b c'' @ '') '' @ concat (map (\<lambda>f. f @ '' '') ?flds) @ ''5000'' @ '' ''
          @ ''1000 2000 18446744073709551615''"
    by (simp add: example_stat_parent_def)
  have pre: "NUL \<notin> set ''100 (a) b c''"
    by (simp add: NUL_def)
  have count: "length ?flds = 19"
    by simp
  have flds: "\<forall>f \<in> set ?flds. CHR '' '' \<notin> set f \<and> NUL \<notin> set f \<and> CHR '')'' \<notin> set f"
    by (simp add: NUL_def)
  have f22: "CHR '' '' \<notin> set ''5000'' \<and> NUL \<notin> set ''5000'' \<and> CHR '')'' \<notin> set ''5000''"
    by (simp add: NUL_def)
  have after: "CHR '')'' \<notin> set ''1000 2000 18446744073709551615''"
    by simp
  have d1: "cstr (uint64ToString (ucast (100 :: 32 word))) = ''100''"
    using example_parent by (simp add: example_world_def)
  have d2: "cstr (uint64ToString (g_bootTimeInJiffies example_globals + stringToUint64 ''5000'')) = ''5000''"
    by code_simp
  note t = writePid_start_tick [OF example_session_ok stat ne fits shape pre count flds f22 after,
      of example_globals, unfolded d1 d2 example_written]
  then show ?thesis
    by simp
qed

text \<open>
  Claim C3, as amended. The target of the link is read into a buffer of 256 bytes, then
  of twice the size as long as the size is below 1 MiB, so the largest buffer is one of
  512 KiB. An attempt succeeds when the target is shorter than the buffer, and then
  writes the target's field and a newline; an attempt whose buffer the target fills is
  given up for the next size. In a session that no fault disturbs, the target is written
  to the record exactly when it is shorter than 512 KiB (524288 bytes); for a longer
  target \<open>writeSymLinkTarget\<close> does not return and writes nothing.
\<close>

theorem writeSymLinkTarget_limit:
  assumes ok: "session_ok path logFile w"
    and l: "links w (cstr name) = Some target"
  shows "(length target < 524288 \<longrightarrow>
            session_written path (writeSymLinkTarget logFile name w)
              = Some (written path logFile w @ spec_field (cstr target) @ [CHR 0x0A]))
       \<and> (524288 \<le> length target \<longrightarrow>
            session_written path (writeSymLinkTarget logFile name w) = None)
       \<and> (length target < 256 \<longrightarrow>
            attemptWriteSymLinkTarget logFile name 256 w
              = bindE (writeEscapedString logFile (target @ [NUL]) w) (\<lambda>(logFile2, w2).
                bindE (writeChar logFile2 (CHR 0x0A) w2) (\<lambda>(logFile3, w3).
                Inr (True, logFile3, w3))))
       \<and> (256 \<le> length target \<longrightarrow>
            attemptWriteSymLinkTarget logFile name 256 w = Inr (False, logFile, w))"
proof (intro conjI impI)
  from ok have nf: "faults w = []"
    by (simp add: session_ok_def)
  {
    assume "length target < 524288"
    then have short: "length target < 2 ^ 19"
      by simp
    from writeSymLinkTarget_appends [OF ok l short]
    show "session_written path (writeSymLinkTarget logFile name w)
              = Some (written path logFile w @ spec_field (cstr target) @ [CHR 0x0A])"
      by (auto elim!: appendsE simp: session_written_def)
  }
  {
    assume "524288 \<le> length target"
    then have long: "2 ^ 19 \<le> length target"
      by simp
    show "session_written path (writeSymLinkTarget logFile name w) = None"
      by (simp add: writeSymLinkTarget_fails [OF nf l long] session_written_def)
  }
  {
    assume fit: "length target < 256"
    have rl: "sys_readlink w name 256 = (int (length target), target, w)"
      using sys_readlink_ok [OF nf l, of 256] fit by simp
    have sz: "size_t_of (int (length target)) = length target"
      using fit by (intro size_t_of_int) simp
    show "attemptWriteSymLinkTarget logFile name 256 w
              = bindE (writeEscapedString logFile (target @ [NUL]) w) (\<lambda>(logFile2, w2).
                bindE (writeChar logFile2 (CHR 0x0A) w2) (\<lambda>(logFile3, w3).
                Inr (True, logFile3, w3)))"
      using fit by (simp add: attemptWriteSymLinkTarget_def rl sz)
  }
  {
    assume "256 \<le> length target"
    then show "attemptWriteSymLinkTarget logFile name 256 w = Inr (False, logFile, w)"
      by (intro attemptWriteSymLinkTarget_too_long [OF nf l]) simp_all
  }
qed

theorem writeSymLinkTarget_limit_witness:
  "session_written ''/tmp/t.log''
     (writeSymLinkTarget example_LogFile ''/proc/self/cwd'' example_session_world)
     = Some ''/w\<newline>''"
proof -
  have l: "links example_session_world (cstr ''/proc/self/cwd'') = Some ''/w''"
    by (simp add: example_session_world_def example_world_def NUL_def)
  have f: "spec_field (cstr ''/w'') = ''/w''"
    by (simp add: spec_field_def NUL_def)
  have s: "length ''/w'' < 524288"
    by simp
  note t = writeSymLinkTarget_limit [OF example_session_ok l, unfolded f example_written]
  with s show ?thesis
    by simp
qed

text \<open>
  The claim as stated fails at a target of 1 MiB - 1 bytes: no buffer that is tried
  holds it, and the diagnostic that follows is built from an array without its NULL.
\<close>

theorem writeSymLinkTarget_counterexample:
  "session_written ''/tmp/t.log''
     (writeSymLinkTarget example_LogFile ''/proc/self/cwd''
        example_long_cwd_world)
     = None
   \<and> writeSymLinkTarget example_LogFile ''/proc/self/cwd''
        example_long_cwd_world
     = Inl UndefinedBehaviour"
proof -
  let ?w = "example_long_cwd_world"
  have nf: "faults ?w = []"
    by (simp add: example_long_cwd_world_def example_session_world_def example_world_def)
  have l: "links ?w (cstr ''/proc/self/cwd'') = Some (replicate 1048575 (CHR ''a''))"
    by (simp add: example_long_cwd_world_def NUL_def)
  have long: "2 ^ 19 \<le> length (replicate 1048575 (CHR ''a''))"
    by simp
  have r: "writeSymLinkTarget example_LogFile ''/proc/self/cwd'' ?w = Inl UndefinedBehaviour"
    by (rule writeSymLinkTarget_fails [OF nf l long])
  show ?thesis
    unfolding r session_written_def by simp
qed

text \<open>
  Claim C4. Let \<open>x\<close> be a string without a NUL byte, written by \<open>writeEscapedString\<close> in a
  session that no fault disturbs. The bytes that the call appends are the field
  \<open>spec_field x\<close>: the bytes of \<open>x\<close>, each backslash and each double quote preceded by a
  backslash and no other byte changed, inside double quotes exactly when \<open>x\<close> contains a
  space or a newline. Decoding that field as the specification says (drop the enclosing
  quotes if present, then undo the two escapes) gives \<open>x\<close> again.
\<close>

theorem writeEscapedString_round_trip:
  assumes ok: "session_ok path logFile w" and x: "NUL \<notin> set x"
  shows "\<exists>logFile' w'. writeEscapedString logFile x w = Inr (logFile', w')
           \<and> written path logFile' w' = written path logFile w @ spec_field x
           \<and> spec_decode (spec_field x) = x
           \<and> spec_field x
               = (if CHR '' '' \<in> set x \<or> CHR 0x0A \<in> set x then [CHR 0x22] else [])
                 @ concat (map (\<lambda>ch. if ch = CHR 0x5C \<or> ch = CHR 0x22 then [CHR 0x5C, ch] else [ch]) x)
                 @ (if CHR '' '' \<in> set x \<or> CHR 0x0A \<in> set x then [CHR 0x22] else [])"
proof -
  from writeEscapedString_appends [OF ok, of x] obtain logFile' w'
    where r: "writeEscapedString logFile x w = Inr (logFile', w')"
      and wr: "written path logFile' w' = written path logFile w @ spec_field (cstr x)"
    by (rule appendsE)
  have wr': "written path logFile' w' = written path logFile w @ spec_field x"
    using wr by (simp only: cstr_id [OF x])
  have shape: "spec_field x
               = (if CHR '' '' \<in> set x \<or> CHR 0x0A \<in> set x then [CHR 0x22] else [])
                 @ concat (map (\<lambda>ch. if ch = CHR 0x5C \<or> ch = CHR 0x22 then [CHR 0x5C, ch] else [ch]) x)
                 @ (if CHR '' '' \<in> set x \<or> CHR 0x0A \<in> set x then [CHR 0x22] else [])"
    by (simp add: spec_field_def spec_escape_concat)
  show ?thesis
    by (intro exI conjI) (rule r, rule wr', rule spec_decode_field, rule shape)
qed

theorem writeEscapedString_round_trip_witness:
  "\<exists>logFile' w'.
       writeEscapedString example_LogFile (''echo '' @ [CHR 0x22] @ ''hi'' @ [CHR 0x22]) example_session_world
         = Inr (logFile', w')
       \<and> written ''/tmp/t.log'' logFile' w'
           = [CHR 0x22] @ ''echo '' @ [CHR 0x5C, CHR 0x22] @ ''hi'' @ [CHR 0x5C, CHR 0x22] @ [CHR 0x22]
       \<and> spec_decode ([CHR 0x22] @ ''echo '' @ [CHR 0x5C, CHR 0x22] @ ''hi'' @ [CHR 0x5C, CHR 0x22] @ [CHR 0x22])
           = ''echo '' @ [CHR 0x22] @ ''hi'' @ [CHR 0x22]"
proof -
  have x: "NUL \<notin> set (''echo '' @ [CHR 0x22] @ ''hi'' @ [CHR 0x22])"
    by (simp add: NUL_def)
  have f: "spec_field (''echo '' @ [CHR 0x22] @ ''hi'' @ [CHR 0x22])
             = [CHR 0x22] @ ''echo '' @ [CHR 0x5C, CHR 0x22] @ ''hi'' @ [CHR 0x5C, CHR 0x22] @ [CHR 0x22]"
    by (simp add: spec_field_def)
  from writeEscapedString_round_trip [OF example_session_ok x] show ?thesis
    unfolding f example_written by auto
qed

text \<open>
  Claim C5. Let \<open>BTRACE_LOG\<close> be unset, or empty, or at least 1024 bytes long, and let
  \<open>g_logFileName\<close> be what \<open>_init\<close> makes of it. Then the buffer still holds its 1024
  NUL bytes; \<open>logExecution\<close> returns at once and leaves the surroundings as they are, so
  no file is opened or created; and each of the six entry points returns exactly what the
  real \<open>execve\<close> or \<open>execvpe\<close> returns for the same path, argument vector and
  environment, in the surroundings that function leaves, \<open>errno\<close> included.
\<close>

theorem disabled_tracer_passes_through:
  assumes var: "logFileVar = None
                \<or> (\<exists>v. logFileVar = Some v \<and> (safeStrLen v = 0 \<or> 1024 \<le> safeStrLen v))"
    and g: "g_logFileName g = init_g_logFileName logFileVar"
  shows "g_logFileName g = replicate 1024 NUL
       \<and> logExecution g filename argv w = Inr w
       \<and> execv g filename argv w = Inr (real_execve g filename argv (environ w) w)
       \<and> execvp g filename argv w = Inr (real_execvpe g filename argv (environ w) w)
       \<and> execve g filename argv envp w = Inr (real_execve g filename argv envp w)
       \<and> execvpe g filename argv envp w = Inr (real_execvpe g filename argv envp w)
       \<and> execl g filename (Some arg) (map VaStr strs @ VaNull # after) w
           = Inr (real_execve g filename (Some (Some arg # map Some strs @ [None])) (environ w) w)
       \<and> execlp g filename (Some arg) (map VaStr strs @ VaNull # after) w
           = Inr (real_execvpe g filename (Some (Some arg # map Some strs @ [None])) (environ w) w)
       \<and> execle g filename (Some arg) (map VaStr strs @ VaNull # VaEnv env # after) w
           = Inr (real_execve g filename (Some (Some arg # map Some strs @ [None])) (Some env) w)
       \<and> execl g filename None after w = Inr (real_execve g filename (Some [None]) (environ w) w)"
proof -
  have name: "g_logFileName g = replicate 1024 NUL"
    using init_g_logFileName_disabled [of logFileVar] var g
    by (simp add: sizeof_g_logFileName_def)
  then have "cstr (g_logFileName g) = []"
    by (simp only: cstr_replicate_NUL)
  then have off: "logExecution g f a v = Inr v" for f a v
    by (rule logExecution_disabled)
  show ?thesis
    by (simp add: name off execv_def execvp_def execve_def execvpe_def wrap_execve_def
          wrap_execvpe_def execl_argv execlp_argv execle_argv execl_NULL)
qed

theorem disabled_tracer_passes_through_witness:
  "execv (example_globals\<lparr>g_logFileName := init_g_logFileName None\<rparr>)
      (Some ''/bin/true'') (Some [Some ''true'', None]) example_world
     = Inr (-1, example_world\<lparr>errno := ENOENT\<rparr>)
   \<and> safeStrLen [] = 0
   \<and> execl (example_globals\<lparr>g_logFileName := init_g_logFileName (Some [])\<rparr>)
      (Some ''/bin/true'') (Some ''true'') [VaNull] example_world
     = Inr (-1, example_world\<lparr>errno := ENOENT\<rparr>)"
proof -
  let ?g = "example_globals\<lparr>g_logFileName := init_g_logFileName None\<rparr>"
  let ?h = "example_globals\<lparr>g_logFileName := init_g_logFileName (Some [])\<rparr>"
  have a: "None = None \<or> (\<exists>v. None = Some v \<and> (safeStrLen v = 0 \<or> 1024 \<le> safeStrLen v))"
    by simp
  have b: "g_logFileName ?g = init_g_logFileName None"
    by simp
  have c: "Some [] = None \<or> (\<exists>v. Some [] = Some v \<and> (safeStrLen v = 0 \<or> 1024 \<le> safeStrLen v))"
    by simp
  have d: "g_logFileName ?h = init_g_logFileName (Some [])"
    by simp
  have r: "real_execve ?g = example_real_exec" and r': "real_execve ?h = example_real_exec"
    by (simp_all add: example_globals_def)
  note t1 = disabled_tracer_passes_through [OF a b, where filename = "Some ''/bin/true''"
      and argv = "Some [Some ''true'', None]" and w = example_world and envp = None
      and arg = "[]" and strs = "[]" and after = "[]" and env = "[]"]
  then have "execv ?g (Some ''/bin/true'') (Some [Some ''true'', None]) example_world
          = Inr (real_execve ?g (Some ''/bin/true'') (Some [Some ''true'', None])
                   (environ example_world) example_world)"
    by blast
  then have e1: "execv ?g (Some ''/bin/true'') (Some [Some ''true'', None]) example_world
          = Inr (-1, example_world\<lparr>errno := ENOENT\<rparr>)"
    by (simp only: r example_real_exec_def)
  note t2 = disabled_tracer_passes_through [OF c d, where filename = "Some ''/bin/true''"
      and argv = None and w = example_world and envp = None
      and arg = "''true''" and strs = "[]" and after = "[]" and env = "[]"]
  then have "execl ?h (Some ''/bin/true'') (Some ''true'') (map VaStr [] @ VaNull # []) example_world
          = Inr (real_execve ?h (Some ''/bin/true'') (Some (Some ''true'' # map Some [] @ [None]))
                   (environ example_world) example_world)"
    by blast
  then have e2: "execl ?h (Some ''/bin/true'') (Some ''true'') [VaNull] example_world
          = Inr (-1, example_world\<lparr>errno := ENOENT\<rparr>)"
    by (simp only: r' example_real_exec_def list.map append_Nil)
  have e3: "safeStrLen [] = 0"
    by simp
  from e1 e3 e2 show ?thesis
    by (intro conjI)
qed

text \<open>
  Claim C6. When \<open>execle\<close> is called with a NULL leading argument, the vector it builds
  is \<open>[NULL]\<close>, and the environment pointer is the first of the variable arguments, the
  one that follows the NULL; both go to \<open>logExecution\<close> and then to the real \<open>execve\<close>.
  A call that passes nothing after the NULL reads an argument that is not there.
\<close>

theorem execle_NULL_leading_argument:
  "execle g path None (VaEnv envp # ap) w
     = (case logExecution g path (Some [None]) w of
          Inl e \<Rightarrow> Inl e
        | Inr w' \<Rightarrow> Inr (real_execve g path (Some [None]) (Some envp) w'))
   \<and> execle g path None (VaNull # ap) w
     = (case logExecution g path (Some [None]) w of
          Inl e \<Rightarrow> Inl e
        | Inr w' \<Rightarrow> Inr (real_execve g path (Some [None]) None w'))
   \<and> execle g path None [] w = Inl UndefinedBehaviour"
  by (simp add: execle_NULL wrap_execve_def bindE_def)

text \<open>
  Claim C7. For every 64-bit value \<open>n\<close>, that is for every \<open>n\<close> with \<open>0 \<le> n < 2 ^ 64\<close>,
  \<open>stringToUint64\<close> applied to what \<open>uint64ToString\<close> writes for \<open>n\<close> gives \<open>n\<close> again.
  What \<open>uint64ToString\<close> writes ends in the NUL terminator; the bytes before it are a
  non-empty run of decimal digits whose value is \<open>n\<close>, and the first of them is \<open>0\<close> only
  for the value 0, which is written as the single digit \<open>0\<close>.
\<close>

theorem decimal_round_trip:
  "stringToUint64 (uint64ToString n) = n
   \<and> last (uint64ToString n) = NUL
   \<and> butlast (uint64ToString n) \<noteq> []
   \<and> list_all safeIsDigit (butlast (uint64ToString n))
   \<and> decimal_value (butlast (uint64ToString n)) = unat n
   \<and> (hd (uint64ToString n) = CHR ''0'') = (n = 0)
   \<and> uint64ToString 0 = [CHR ''0'', NUL]"
proof -
  have z: "uint64ToString 0 = [CHR ''0'', NUL]"
    by (simp add: uint64ToString_def NUL_def char_of_48)
  have b: "butlast (uint64ToString n) = uint64ToString_loop n []"
    by (simp only: uint64ToString_eq butlast_snoc)
  have l: "last (uint64ToString n) = NUL"
    by (simp only: uint64ToString_eq last_snoc)
  have h: "hd (uint64ToString n) = hd (uint64ToString_loop n [])"
    by (simp only: uint64ToString_eq hd_append2 [OF uint64ToString_loop_nonempty])
  show ?thesis
    by (simp only: z b l h stringToUint64_uint64ToString uint64ToString_loop_hd
          uint64ToString_loop_nonempty uint64ToString_loop_digits
          decimal_value_uint64ToString_loop simp_thms)
qed

text \<open>
  Claim C8, as amended. In a session that no fault disturbs, the step of
  \<open>logExecution\<close> that writes the arguments writes nothing when the argument vector is
  NULL or its first element is NULL, and returns; the newline that follows is then the
  whole argument line. For the arguments \<open>args\<close> it writes their fields with exactly one
  space between neighbours and none before the first or after the last field, so that
  \<open>n\<close> arguments give \<open>n - 1\<close> separators. An argument that is the empty string is
  written as no bytes. So the line begins with a space exactly when there are at least
  two arguments and the first is empty, and it ends with a space exactly when there are
  at least two arguments and the last is empty; a single empty argument gives the empty
  line.
\<close>

theorem argument_line:
  assumes ok: "session_ok path logFile w"
  shows "logExecution_argv logFile None w = Inr (logFile, w)
       \<and> logExecution_argv logFile (Some (None # rest)) w = Inr (logFile, w)
       \<and> session_written path (logExecution_argv logFile (Some (map Some args @ None # rest)) w)
           = Some (written path logFile w @ spec_arg_line (map cstr args))
       \<and> length (spec_arg_line (map cstr args))
           = sum_list (map (\<lambda>a. length (spec_field (cstr a))) args) + (length args - 1)
       \<and> (take 1 (spec_arg_line (map cstr args)) = '' '')
           = (2 \<le> length args \<and> cstr (hd args) = [])
       \<and> (spec_arg_line (map cstr args) \<noteq> [] \<and> last (spec_arg_line (map cstr args)) = CHR '' '')
           = (2 \<le> length args \<and> cstr (last args) = [])"
proof -
  have a: "logExecution_argv logFile None w = Inr (logFile, w)"
    by (simp add: logExecution_argv_def hiddenNull_def)
  have b: "logExecution_argv logFile (Some (None # rest)) w = Inr (logFile, w)"
    by (simp add: logExecution_argv_def hiddenNull_def)
  have c: "session_written path (logExecution_argv logFile (Some (map Some args @ None # rest)) w)
           = Some (written path logFile w @ spec_arg_line (map cstr args))"
    using logExecution_argv_appends [OF ok, of args rest]
    by (auto elim!: appendsE simp: session_written_def)
  have d: "length (spec_arg_line (map cstr args))
           = sum_list (map (\<lambda>a. length (spec_field (cstr a))) args) + (length args - 1)"
    by (simp add: spec_arg_line_length comp_def)
  have e: "(take 1 (spec_arg_line (map cstr args)) = '' '')
           = (2 \<le> length args \<and> cstr (hd args) = [])"
  proof (cases args)
    case Nil
    then show ?thesis by simp
  next
    case (Cons x xs)
    then have "hd (map cstr args) = cstr (hd args)"
      by simp
    then show ?thesis
      using spec_arg_line_begins_with_space [of "map cstr args"] by simp
  qed
  have f: "(spec_arg_line (map cstr args) \<noteq> [] \<and> last (spec_arg_line (map cstr args)) = CHR '' '')
           = (2 \<le> length args \<and> cstr (last args) = [])"
  proof (cases args)
    case Nil
    then show ?thesis by simp
  next
    case (Cons x xs)
    then have "last (map cstr args) = cstr (last args)"
      by (simp add: last_map)
    then show ?thesis
      using spec_arg_line_ends_with_space [of "map cstr args"] by simp
  qed
  from a b c d e f show ?thesis
    by (intro conjI)
qed

theorem argument_line_witness:
  "session_written ''/tmp/t.log''
     (logExecution_argv example_LogFile (Some [Some ''ls'', Some ''a b'', None]) example_session_world)
     = Some (''ls '' @ [CHR 0x22] @ ''a b'' @ [CHR 0x22])
   \<and> take 1 (''ls '' @ [CHR 0x22] @ ''a b'' @ [CHR 0x22]) \<noteq> '' ''
   \<and> last (''ls '' @ [CHR 0x22] @ ''a b'' @ [CHR 0x22]) \<noteq> CHR '' ''
   \<and> session_written ''/tmp/t.log''
     (logExecution_argv example_LogFile (Some [Some [], None]) example_session_world)
     = Some []"
proof -
  have l: "spec_arg_line (map cstr [''ls'', ''a b'']) = ''ls '' @ [CHR 0x22] @ ''a b'' @ [CHR 0x22]"
    by (simp add: spec_field_def NUL_def)
  have n: "cstr (hd [''ls'', ''a b'']) \<noteq> []" "cstr (last [''ls'', ''a b'']) \<noteq> []"
    by (simp_all add: NUL_def)
  note t = argument_line [OF example_session_ok, where args = "[''ls'', ''a b'']" and rest = "[]"]
  from t have "session_written ''/tmp/t.log''
     (logExecution_argv example_LogFile (Some (map Some [''ls'', ''a b''] @ None # [])) example_session_world)
     = Some (written ''/tmp/t.log'' example_LogFile example_session_world
             @ spec_arg_line (map cstr [''ls'', ''a b'']))"
    by blast
  then have a: "session_written ''/tmp/t.log''
     (logExecution_argv example_LogFile (Some [Some ''ls'', Some ''a b'', None]) example_session_world)
     = Some (''ls '' @ [CHR 0x22] @ ''a b'' @ [CHR 0x22])"
    by (simp add: example_written spec_field_def NUL_def)
  from t n have "take 1 (spec_arg_line (map cstr [''ls'', ''a b''])) \<noteq> '' ''"
    by blast
  then have b: "take 1 (''ls '' @ [CHR 0x22] @ ''a b'' @ [CHR 0x22]) \<noteq> '' ''"
    unfolding l .
  from t n have "\<not> (spec_arg_line (map cstr [''ls'', ''a b'']) \<noteq> []
                     \<and> last (spec_arg_line (map cstr [''ls'', ''a b''])) = CHR '' '')"
    by blast
  then have c: "last (''ls '' @ [CHR 0x22] @ ''a b'' @ [CHR 0x22]) \<noteq> CHR '' ''"
    unfolding l by simp
  note u = argument_line [OF example_session_ok, where args = "[[]]" and rest = "[]"]
  from u have "session_written ''/tmp/t.log''
     (logExecution_argv example_LogFile (Some (map Some [[]] @ None # [])) example_session_world)
     = Some (written ''/tmp/t.log'' example_LogFile example_session_world
             @ spec_arg_line (map cstr [[]]))"
    by blast
  then have d: "session_written ''/tmp/t.log''
     (logExecution_argv example_LogFile (Some [Some [], None]) example_session_world)
     = Some []"
    by (simp add: example_written spec_field_def)
  from a b c d show ?thesis
    by blast
qed

text \<open>
  The claim as stated fails for an empty last argument: for the arguments \<open>a\<close> and the
  empty string the argument line is \<open>a\<close> followed by a space.
\<close>

theorem argument_line_trailing_space:
  "session_written ''/tmp/t.log''
     (logExecution_argv example_LogFile (Some [Some ''a'', Some [], None]) example_session_world)
     = Some ''a ''
   \<and> last ''a '' = CHR '' ''"
proof -
  have l: "spec_arg_line (map cstr [''a'', []]) = ''a ''"
    by (simp add: spec_field_def NUL_def)
  from logExecution_argv_appends [OF example_session_ok, of "[''a'', []]" "[]"]
  show ?thesis
    unfolding l by (auto elim!: appendsE simp: session_written_def example_written)
qed

text \<open>
  Claim C9. Let the staging buffer be in order: it has its 1024 bytes and a fill count of
  at most 1024. Then, whatever faults the surroundings force:
  \<^item> \<open>writeChar\<close> on a full buffer is \<open>flushLogFile\<close> followed by storing the byte at
    position 0, and on a buffer that is not full it stores the byte without any flush;
  \<^item> a \<open>flushLogFile\<close> that returns has reset the fill count to zero and has appended
    all the staged bytes to the file behind the descriptor;
  \<^item> a \<open>write\<close> that does not return the fill count, a short write for one, makes
    \<open>flushLogFile\<close> stop the process, and a \<open>write\<close> that returns the fill count makes
    it return, with the fill count zero, in the surroundings that \<open>write\<close> left;
  \<^item> when no fault is forced and the descriptor is open on a file, \<open>flushLogFile\<close>
    returns with all the staged bytes appended to that file, and \<open>writeChar\<close> on a full
    buffer returns with the 1024 staged bytes appended and the new byte alone in the
    buffer;
  \<^item> after \<open>flushLogFile\<close>, \<open>writeChar\<close>, \<open>writeString\<close> and \<open>writeEscapedString\<close> the
    buffer is in order again, and \<open>openLogFile\<close> starts a session with a fill count of zero.
\<close>

theorem staging_buffer_within_capacity:
  assumes ok: "buf_ok logFile"
  shows "(bufCount logFile = sizeof_buf \<longrightarrow>
            writeChar logFile ch w
              = bindE (flushLogFile logFile w) (\<lambda>(logFile', w').
                  Inr (logFile'\<lparr>buf := (buf logFile')[0 := ch], bufCount := 1\<rparr>, w')))
       \<and> (bufCount logFile \<noteq> sizeof_buf \<longrightarrow>
            writeChar logFile ch w
              = Inr (logFile\<lparr>buf := (buf logFile)[bufCount logFile := ch],
                            bufCount := bufCount logFile + 1\<rparr>, w))
       \<and> (map_of (fdtab w) (fd logFile) = Some path \<and> flushLogFile logFile w = Inr (logFile1, w1) \<longrightarrow>
            bufCount logFile1 = 0
            \<and> files w1 path
                = Some ((case files w path of None \<Rightarrow> [] | Some c \<Rightarrow> c)
                        @ take (bufCount logFile) (buf logFile)))
       \<and> (fst (write_EINTR_LOOP w (fd logFile) (take (bufCount logFile) (buf logFile)))
              \<noteq> int (bufCount logFile) \<longrightarrow>
            flushLogFile logFile w = Inl (AssertFail ''Error writing to trace file.''))
       \<and> (fst (write_EINTR_LOOP w (fd logFile) (take (bufCount logFile) (buf logFile)))
              = int (bufCount logFile) \<longrightarrow>
            flushLogFile logFile w
              = Inr (logFile\<lparr>bufCount := 0\<rparr>,
                     snd (write_EINTR_LOOP w (fd logFile) (take (bufCount logFile) (buf logFile)))))
       \<and> (faults w = [] \<and> map_of (fdtab w) (fd logFile) = Some path \<longrightarrow>
            flushLogFile logFile w
              = Inr (logFile\<lparr>bufCount := 0\<rparr>,
                     w\<lparr>files := (files w)(path \<mapsto>
                           (case files w path of None \<Rightarrow> [] | Some c \<Rightarrow> c)
                           @ take (bufCount logFile) (buf logFile))\<rparr>))
       \<and> (faults w = [] \<and> map_of (fdtab w) (fd logFile) = Some path
              \<and> bufCount logFile = sizeof_buf \<longrightarrow>
            writeChar logFile ch w
              = Inr (logFile\<lparr>buf := (buf logFile)[0 := ch], bufCount := 1\<rparr>,
                     w\<lparr>files := (files w)(path \<mapsto>
                           (case files w path of None \<Rightarrow> [] | Some c \<Rightarrow> c)
                           @ take (bufCount logFile) (buf logFile))\<rparr>))
       \<and> (flushLogFile logFile w = Inr (logFile1, w1) \<longrightarrow> buf_ok logFile1)
       \<and> (writeChar logFile ch w = Inr (logFile2, w2) \<longrightarrow> buf_ok logFile2)
       \<and> (writeString logFile str w = Inr (logFile3, w3) \<longrightarrow> buf_ok logFile3)
       \<and> (writeEscapedString logFile str w = Inr (logFile4, w4) \<longrightarrow> buf_ok logFile4)
       \<and> (openLogFile logFile name w = Inr (logFile5, w5) \<longrightarrow>
            buf_ok logFile5 \<and> bufCount logFile5 = 0)"
proof -
  have full: "bufCount logFile = sizeof_buf \<longrightarrow>
            writeChar logFile ch w
              = bindE (flushLogFile logFile w) (\<lambda>(logFile', w').
                  Inr (logFile'\<lparr>buf := (buf logFile')[0 := ch], bufCount := 1\<rparr>, w'))"
    using writeChar_full [OF ok] by blast
  have room: "bufCount logFile \<noteq> sizeof_buf \<longrightarrow>
            writeChar logFile ch w
              = Inr (logFile\<lparr>buf := (buf logFile)[bufCount logFile := ch],
                            bufCount := bufCount logFile + 1\<rparr>, w)"
    using writeChar_not_full [OF ok] by blast
  have whole: "map_of (fdtab w) (fd logFile) = Some path \<and> flushLogFile logFile w = Inr (logFile1, w1) \<longrightarrow>
            bufCount logFile1 = 0
            \<and> files w1 path
                = Some ((case files w path of None \<Rightarrow> [] | Some c \<Rightarrow> c)
                        @ take (bufCount logFile) (buf logFile))"
  proof
    assume a: "map_of (fdtab w) (fd logFile) = Some path \<and> flushLogFile logFile w = Inr (logFile1, w1)"
    from flushLogFile_Inr [of logFile w logFile1 w1] a
    have l: "logFile1 = logFile\<lparr>bufCount := 0\<rparr>" and le: "bufCount logFile \<le> length (buf logFile)"
      and wr: "write_EINTR_LOOP w (fd logFile) (take (bufCount logFile) (buf logFile))
                 = (int (bufCount logFile), w1)"
      by simp_all
    from le have len: "length (take (bufCount logFile) (buf logFile)) = bufCount logFile"
      by simp
    from write_EINTR_LOOP_whole [of w "fd logFile" path "take (bufCount logFile) (buf logFile)" w1]
      a wr len
    show "bufCount logFile1 = 0
            \<and> files w1 path
                = Some ((case files w path of None \<Rightarrow> [] | Some c \<Rightarrow> c)
                        @ take (bufCount logFile) (buf logFile))"
      by (simp add: l)
  qed
  have le: "bufCount logFile \<le> length (buf logFile)"
    using ok by (simp add: buf_ok_def)
  have short: "fst (write_EINTR_LOOP w (fd logFile) (take (bufCount logFile) (buf logFile)))
              \<noteq> int (bufCount logFile) \<longrightarrow>
            flushLogFile logFile w = Inl (AssertFail ''Error writing to trace file.'')"
    using flushLogFile_short_write [OF le] by blast
  have taken: "fst (write_EINTR_LOOP w (fd logFile) (take (bufCount logFile) (buf logFile)))
              = int (bufCount logFile) \<longrightarrow>
            flushLogFile logFile w
              = Inr (logFile\<lparr>bufCount := 0\<rparr>,
                     snd (write_EINTR_LOOP w (fd logFile) (take (bufCount logFile) (buf logFile))))"
    using flushLogFile_whole_write [OF le] by blast
  have quiet: "faults w = [] \<and> map_of (fdtab w) (fd logFile) = Some path \<longrightarrow>
            flushLogFile logFile w
              = Inr (logFile\<lparr>bufCount := 0\<rparr>,
                     w\<lparr>files := (files w)(path \<mapsto>
                           (case files w path of None \<Rightarrow> [] | Some c \<Rightarrow> c)
                           @ take (bufCount logFile) (buf logFile))\<rparr>)"
    using flushLogFile_no_fault [OF ok] by blast
  have quiet_full: "faults w = [] \<and> map_of (fdtab w) (fd logFile) = Some path
              \<and> bufCount logFile = sizeof_buf \<longrightarrow>
            writeChar logFile ch w
              = Inr (logFile\<lparr>buf := (buf logFile)[0 := ch], bufCount := 1\<rparr>,
                     w\<lparr>files := (files w)(path \<mapsto>
                           (case files w path of None \<Rightarrow> [] | Some c \<Rightarrow> c)
                           @ take (bufCount logFile) (buf logFile))\<rparr>)"
    using writeChar_full_no_fault [OF ok] by blast
  have inv1: "flushLogFile logFile w = Inr (logFile1, w1) \<longrightarrow> buf_ok logFile1"
    using flushLogFile_buf_ok [OF ok] by blast
  have inv2: "writeChar logFile ch w = Inr (logFile2, w2) \<longrightarrow> buf_ok logFile2"
    using writeChar_buf_ok [OF ok] by blast
  have inv3: "writeString logFile str w = Inr (logFile3, w3) \<longrightarrow> buf_ok logFile3"
    using writeString_buf_ok [OF ok] by blast
  have inv4: "writeEscapedString logFile str w = Inr (logFile4, w4) \<longrightarrow> buf_ok logFile4"
    using writeEscapedString_buf_ok [OF ok] by blast
  have inv5: "openLogFile logFile name w = Inr (logFile5, w5) \<longrightarrow>
            buf_ok logFile5 \<and> bufCount logFile5 = 0"
    using openLogFile_bufCount [of logFile name w logFile5 w5] ok
    by (auto simp: buf_ok_def)
  from full room whole short taken quiet quiet_full inv1 inv2 inv3 inv4 inv5 show ?thesis
    by (intro conjI)
qed

theorem staging_buffer_within_capacity_witness:
  "buf_ok example_LogFile \<and> bufCount example_LogFile \<noteq> sizeof_buf
   \<and> writeChar example_LogFile (CHR ''e'') example_session_world
       = Inr (example_LogFile\<lparr>buf := (buf example_LogFile)[0 := CHR ''e''], bufCount := 1\<rparr>,
              example_session_world)
   \<and> buf_ok (example_LogFile\<lparr>buf := (buf example_LogFile)[0 := CHR ''e''], bufCount := 1\<rparr>)
   \<and> buf_ok example_full_LogFile \<and> bufCount example_full_LogFile = sizeof_buf
   \<and> flushLogFile example_full_LogFile example_session_world
       = Inr (example_full_LogFile\<lparr>bufCount := 0\<rparr>,
              example_session_world\<lparr>files := (files example_session_world)
                (''/tmp/t.log'' \<mapsto> replicate 1024 (CHR ''x''))\<rparr>)
   \<and> writeChar example_full_LogFile (CHR ''e'') example_session_world
       = Inr (example_full_LogFile\<lparr>buf := (buf example_full_LogFile)[0 := CHR ''e''], bufCount := 1\<rparr>,
              example_session_world\<lparr>files := (files example_session_world)
                (''/tmp/t.log'' \<mapsto> replicate 1024 (CHR ''x''))\<rparr>)
   \<and> buf_ok (example_full_LogFile\<lparr>buf := (buf example_full_LogFile)[0 := CHR ''e''], bufCount := 1\<rparr>)"
proof -
  let ?one = "example_LogFile\<lparr>buf := (buf example_LogFile)[0 := CHR ''e''], bufCount := 1\<rparr>"
  let ?w' = "example_session_world\<lparr>files := (files example_session_world)
                (''/tmp/t.log'' \<mapsto> replicate 1024 (CHR ''x''))\<rparr>"
  let ?full1 = "example_full_LogFile\<lparr>buf := (buf example_full_LogFile)[0 := CHR ''e''], bufCount := 1\<rparr>"
  have h: "buf_ok example_LogFile"
    by (simp add: buf_ok_def example_LogFile_def uninitialised_LogFile_def)
  have c: "bufCount example_LogFile = 0"
    by (simp add: example_LogFile_def uninitialised_LogFile_def)
  have n: "bufCount example_LogFile \<noteq> sizeof_buf"
    by (simp add: c sizeof_buf_def)
  note t = staging_buffer_within_capacity [OF h, where ch = "CHR ''e''" and w = example_session_world
      and ?logFile2.0 = ?one and ?w2.0 = example_session_world]
  from t n have w: "writeChar example_LogFile (CHR ''e'') example_session_world
       = Inr (?one, example_session_world)"
    by (simp add: c)
  with t have o: "buf_ok ?one"
    by blast
  have hf: "buf_ok example_full_LogFile"
    by (simp add: buf_ok_def example_full_LogFile_def)
  have cf: "bufCount example_full_LogFile = sizeof_buf"
    by (simp add: example_full_LogFile_def)
  have q: "faults example_session_world = []
           \<and> map_of (fdtab example_session_world) (fd example_full_LogFile) = Some ''/tmp/t.log''"
    by (simp add: example_session_world_def example_world_def example_full_LogFile_def)
  have staged: "(case files example_session_world ''/tmp/t.log'' of None \<Rightarrow> [] | Some c \<Rightarrow> c)
                  @ take (bufCount example_full_LogFile) (buf example_full_LogFile)
                = replicate 1024 (CHR ''x'')"
    by (simp add: example_session_world_def example_world_def example_full_LogFile_def sizeof_buf_def)
  note u = staging_buffer_within_capacity [OF hf, where ch = "CHR ''e''" and w = example_session_world
      and path = "''/tmp/t.log''" and ?logFile2.0 = ?full1 and ?w2.0 = ?w', unfolded staged]
  from u q have fl: "flushLogFile example_full_LogFile example_session_world
       = Inr (example_full_LogFile\<lparr>bufCount := 0\<rparr>, ?w')"
    by blast
  from u q cf have wf: "writeChar example_full_LogFile (CHR ''e'') example_session_world
       = Inr (?full1, ?w')"
    by blast
  with u have of1: "buf_ok ?full1"
    by blast
  from h n w o hf cf fl wf of1 show ?thesis
    by (intro conjI)
qed

text \<open>
  Claim C10. \<open>stringToUint64\<close> returns 0 for the empty string and for every string whose
  first character is not an ASCII digit. In general its result is the value of the leading
  run of digits reduced modulo \<open>2 ^ 64\<close>: a run whose value exceeds \<open>2 ^ 64 - 1\<close> wraps
  around and no overflow is signalled.
\<close>

theorem stringToUint64_no_digit_and_wrap:
  "stringToUint64 [] = 0
   \<and> (\<not> safeIsDigit ch \<longrightarrow> stringToUint64 (ch # s) = 0)
   \<and> unat (stringToUint64 t) = decimal_value (takeWhile safeIsDigit t) mod 2 ^ 64"
  by (simp add: stringToUint64_eq decimal_value_def unat_of_nat)

theorem stringToUint64_no_digit_and_wrap_witness:
  "\<not> safeIsDigit (CHR ''x'') \<and> stringToUint64 ''x12'' = 0
   \<and> unat (stringToUint64 ''18446744073709551617 '') = 1"
proof -
  have a: "\<not> safeIsDigit (CHR ''x'')"
    by (simp add: safeIsDigit_def)
  have b: "takeWhile safeIsDigit ''18446744073709551617 '' = ''18446744073709551617''"
    by (simp add: safeIsDigit_def)
  have c: "decimal_value ''18446744073709551617'' mod 2 ^ 64 = 1"
    by (simp add: decimal_value_def digit_value_def)
  note t = stringToUint64_no_digit_and_wrap [of "CHR ''x''" "''12''" "''18446744073709551617 ''"]
  from t a have d: "stringToUint64 ''x12'' = 0"
    by blast
  from t have "unat (stringToUint64 ''18446744073709551617 '')
      = decimal_value (takeWhile safeIsDigit ''18446744073709551617 '') mod 2 ^ 64"
    by blast
  then have e: "unat (stringToUint64 ''18446744073709551617 '') = 1"
    by (simp only: b c)
  show ?thesis
    using a d e by blast
qed

end
